theory Spec2Isabelle
  imports Main "HOL-Library.Multiset" "HOL-Library.Sublist"
begin

section \<open>The IR as the pass sees it\<close>

text \<open>
  The pass works on \<^verbatim>\<open>Node*\<close>, \<^verbatim>\<open>Value*\<close> and \<^verbatim>\<open>Block*\<close> pointers into one shared,
  mutable graph. Pointers are handles (natural numbers) into three tables; \<open>next_handle\<close>
  is the first handle no allocation has used yet. A \<^verbatim>\<open>Graph\<close> (the outer graph, or the
  \<^verbatim>\<open>attr::Subgraph\<close> payload of a group node) is identified with its top-level block: its
  inputs are the outputs of the block's parameter node and its outputs are the inputs of
  the block's return node.
\<close>

type_synonym nid = nat
type_synonym vid = nat
type_synonym bid = nat

datatype kind =
    prim_DifferentiableGraph
  | prim_Constant
  | prim_profile
  | prim_Param
  | prim_Return
  | aten_view
  | aten_view_as
  | aten_reshape
  | aten_reshape_as
  | aten_transpose
  | aten_expand
  | aten_expand_as
  | other_op string

text \<open>
  A type descriptor: a tensor type carries the optional gradient-requirement flag and
  (abstractly, as one number) everything else it records; any other type is opaque.
\<close>

datatype ty = TensorType "bool option" nat | OtherType nat

datatype error = AssertionFailed | IndexOutOfRange | MissingAttribute

record Use =
  user :: nid
  offset :: nat

record Value =
  node :: nid
  vtype :: ty
  uses :: "Use list"

text \<open>
  \<open>hasSideEffects\<close> and \<open>notExecutedOp\<close> are methods of \<^verbatim>\<open>Node\<close> whose bodies are not in
  this file; their answers are taken as data of the node. \<open>Subgraph\<close> and \<open>profiled_type\<close>
  are the two attributes the pass reads (\<open>None\<close>: the attribute is absent).
\<close>

record Node =
  kind :: kind
  inputs :: "vid list"
  outputs :: "vid list"
  blocks :: "bid list"
  owningBlock :: bid
  hasSideEffects :: bool
  notExecutedOp :: bool
  Subgraph :: "bid option"
  profiled_type :: "ty option"

text \<open>
  A block: the synthetic parameter and return nodes and, between them, the interior nodes
  in their list order. The node list of the source is circular
  (param, interior, return, param, ...).
\<close>

record Block =
  param_node :: nid
  return_node :: nid
  nodes :: "nid list"

record Graph =
  block :: bid
  Nodes :: "nid \<Rightarrow> Node"
  Values :: "vid \<Rightarrow> Value"
  Blocks :: "bid \<Rightarrow> Block"
  next_handle :: nat

definition graph_inputs :: "Graph \<Rightarrow> bid \<Rightarrow> vid list" where
  "graph_inputs g b = outputs (Nodes g (param_node (Blocks g b)))"

definition graph_outputs :: "Graph \<Rightarrow> bid \<Rightarrow> vid list" where
  "graph_outputs g b = inputs (Nodes g (return_node (Blocks g b)))"

definition setType :: "Graph \<Rightarrow> vid \<Rightarrow> ty \<Rightarrow> Graph" where
  "setType g v t = g\<lparr>Values := (Values g)(v := (Values g v)\<lparr>vtype := t\<rparr>)\<rparr>"

section \<open>Recovering gradient-requirement flags\<close>

text \<open>\<^verbatim>\<open>getProfileNodeRequiresGrad\<close> (lines 305-315).\<close>

definition getProfileNodeRequiresGrad :: "Graph \<Rightarrow> nid \<Rightarrow> error + bool option" where
  "getProfileNodeRequiresGrad g n =
     (if kind (Nodes g n) \<noteq> prim_profile then Inl AssertionFailed
      else case profiled_type (Nodes g n) of
             None \<Rightarrow> Inr None
           | Some (OtherType _) \<Rightarrow> Inr None
           | Some (TensorType r _) \<Rightarrow> Inr r)"

text \<open>
  The inner loop of lines 351-360 over the uses of the group input \<^verbatim>\<open>dg_value\<close>: the first
  profile node that exposes a flag ends the loop.
\<close>

fun dg_uses_loop :: "Graph \<Rightarrow> Use list \<Rightarrow> error + bool option" where
  "dg_uses_loop g [] = Inr None"
| "dg_uses_loop g (dg_use # rest) =
     (if kind (Nodes g (user dg_use)) = prim_profile then
        (case getProfileNodeRequiresGrad g (user dg_use) of
           Inl e \<Rightarrow> Inl e
         | Inr (Some r) \<Rightarrow> Inr (Some r)
         | Inr None \<Rightarrow> dg_uses_loop g rest)
      else dg_uses_loop g rest)"

text \<open>
  Lines 347-364 for one use whose user is a group node: read the subgraph, take its input
  at the use's offset, search that value's uses.
\<close>

definition through_group :: "Graph \<Rightarrow> Use \<Rightarrow> error + bool option" where
  "through_group g use =
     (case Subgraph (Nodes g (user use)) of
        None \<Rightarrow> Inl MissingAttribute
      | Some dg \<Rightarrow>
          if offset use < length (graph_inputs g dg)
          then dg_uses_loop g (uses (Values g (graph_inputs g dg ! offset use)))
          else Inl IndexOutOfRange)"

text \<open>The loop of lines 337-365 over the uses of the outer output of the group node.\<close>

fun uses_loop :: "Graph \<Rightarrow> Use list \<Rightarrow> error + bool option" where
  "uses_loop g [] = Inr None"
| "uses_loop g (use # rest) =
     (case (if kind (Nodes g (user use)) = prim_profile
            then getProfileNodeRequiresGrad g (user use) else Inr None) of
        Inl e \<Rightarrow> Inl e
      | Inr (Some r) \<Rightarrow> Inr (Some r)
      | Inr None \<Rightarrow>
          if kind (Nodes g (user use)) = prim_DifferentiableGraph then
            (case through_group g use of
               Inl e \<Rightarrow> Inl e
             | Inr (Some r) \<Rightarrow> Inr (Some r)
             | Inr None \<Rightarrow> uses_loop g rest)
          else uses_loop g rest)"

text \<open>
  The body of the loop of lines 320-371 for output index \<open>i\<close> of the subgraph \<open>sub\<close> of the
  group node \<open>diff_graph\<close>. \<^verbatim>\<open>diff_graph->output(i)\<close> is a checked access.
\<close>

definition output_step :: "nid \<Rightarrow> bid \<Rightarrow> Graph \<Rightarrow> nat \<Rightarrow> error + Graph" where
  "output_step diff_graph sub g i =
     (let output = graph_outputs g sub ! i in
      if kind (Nodes g (node (Values g output))) = prim_profile then Inr g
      else case vtype (Values g output) of
             OtherType _ \<Rightarrow> Inr g
           | TensorType (Some _) _ \<Rightarrow> Inr g
           | TensorType None info \<Rightarrow>
               if i < length (outputs (Nodes g diff_graph)) then
                 (case uses_loop g (uses (Values g (outputs (Nodes g diff_graph) ! i))) of
                    Inl e \<Rightarrow> Inl e
                  | Inr None \<Rightarrow> Inr g
                  | Inr (Some r) \<Rightarrow> Inr (setType g output (TensorType (Some r) info)))
               else Inl IndexOutOfRange)"

fun output_loop :: "nid \<Rightarrow> bid \<Rightarrow> nat list \<Rightarrow> Graph \<Rightarrow> error + Graph" where
  "output_loop diff_graph sub [] g = Inr g"
| "output_loop diff_graph sub (i # rest) g =
     (case output_step diff_graph sub g i of
        Inl e \<Rightarrow> Inl e
      | Inr g' \<Rightarrow> output_loop diff_graph sub rest g')"

text \<open>\<^verbatim>\<open>AddRequiresGradToDifferentiableGraph\<close> (lines 317-372).\<close>

definition AddRequiresGradToDifferentiableGraph :: "Graph \<Rightarrow> nid \<Rightarrow> error + Graph" where
  "AddRequiresGradToDifferentiableGraph g diff_graph =
     (if kind (Nodes g diff_graph) \<noteq> prim_DifferentiableGraph then Inl AssertionFailed
      else case Subgraph (Nodes g diff_graph) of
             None \<Rightarrow> Inl MissingAttribute
           | Some sub \<Rightarrow>
               output_loop diff_graph sub [0..<length (graph_outputs g sub)] g)"

section \<open>Collaborators\<close>

text \<open>
  The pass calls into the differentiability classifier (\<^verbatim>\<open>autodiff.h\<close>), the alias database
  (\<^verbatim>\<open>alias_analysis.h\<close>), the subgraph utilities (\<^verbatim>\<open>subgraph_utils.h\<close>) and common
  subexpression elimination. Their bodies are not part of this file, so they are parameters
  of the model. Each one that mutates the graph maps the graph to the mutated graph; the
  alias database is built from the graph (line 398) and kept consistent with it by the
  helpers, so what it answers is a function of the graph.
  \<^verbatim>\<open>moveBeforeTopologicallyValid\<close> either performs the move (\<open>Some\<close> of the reordered graph)
  or refuses and leaves the graph alone (\<open>None\<close>), as its declaration documents.
\<close>

record Collab =
  isDifferentiable :: "Graph \<Rightarrow> nid \<Rightarrow> bool"
  moveBeforeTopologicallyValid :: "Graph \<Rightarrow> nid \<Rightarrow> nid \<Rightarrow> Graph option"
  createSingletonSubgraphAndUpdateAliasing :: "Graph \<Rightarrow> nid \<Rightarrow> nid \<times> Graph"
  mergeNodeIntoSubgraphAndUpdateAliasing :: "Graph \<Rightarrow> nid \<Rightarrow> nid \<Rightarrow> Graph"
  unmergeSubgraph :: "Graph \<Rightarrow> nid \<Rightarrow> Graph"
  unmergeAliasedOutputs :: "Graph \<Rightarrow> nid \<Rightarrow> bool \<times> Graph"
  unmergeOutputsAlisingInputs :: "Graph \<Rightarrow> nid \<Rightarrow> bool \<times> Graph"
  EliminateCommonSubexpression :: "Graph \<Rightarrow> bid \<Rightarrow> Graph"

section \<open>Results, loops and list navigation\<close>

text \<open>
  A computation that may raise (\<open>Inl\<close>) and whose loops are bounded by fuel (\<open>None\<close>: the
  fuel ran out before the loop ended).
\<close>

type_synonym 'a res = "(error + 'a) option"

definition bind_res :: "'a res \<Rightarrow> ('a \<Rightarrow> 'b res) \<Rightarrow> 'b res" where
  "bind_res m f = (case m of None \<Rightarrow> None | Some (Inl e) \<Rightarrow> Some (Inl e) | Some (Inr x) \<Rightarrow> f x)"

text \<open>
  \<^verbatim>\<open>while (it != stop) { (it, s) = body(s, it); }\<close>: every loop of the pass that walks a
  node list under mutation has this shape; the body says where the cursor goes next.
\<close>

fun cursor_loop ::
  "nat \<Rightarrow> nid \<Rightarrow> ('s \<Rightarrow> nid \<Rightarrow> (nid \<times> 's) res) \<Rightarrow> nid \<Rightarrow> 's \<Rightarrow> 's res" where
  "cursor_loop 0 stop body it s = None"
| "cursor_loop (Suc k) stop body it s =
     (if it = stop then Some (Inr s)
      else case body s it of
             None \<Rightarrow> None
           | Some (Inl e) \<Rightarrow> Some (Inl e)
           | Some (Inr (it', s')) \<Rightarrow> cursor_loop k stop body it' s')"

text \<open>
  \<^verbatim>\<open>bool any_changed = true; while (any_changed) { any_changed = false; ... }\<close>: the pass
  runs at least once and again after every pass that reported a change.
\<close>

fun changed_loop :: "nat \<Rightarrow> ('s \<Rightarrow> (bool \<times> 's) res) \<Rightarrow> 's \<Rightarrow> 's res" where
  "changed_loop 0 pass s = None"
| "changed_loop (Suc k) pass s =
     (case pass s of
        None \<Rightarrow> None
      | Some (Inl e) \<Rightarrow> Some (Inl e)
      | Some (Inr (any_changed, s')) \<Rightarrow>
          if any_changed then changed_loop k pass s' else Some (Inr s'))"

text \<open>A loop over a vector that the body does not resize.\<close>

fun fold_res :: "('a \<Rightarrow> 's \<Rightarrow> 's res) \<Rightarrow> 'a list \<Rightarrow> 's \<Rightarrow> 's res" where
  "fold_res body [] s = Some (Inr s)"
| "fold_res body (x # xs) s =
     (case body x s of
        None \<Rightarrow> None
      | Some (Inl e) \<Rightarrow> Some (Inl e)
      | Some (Inr s') \<Rightarrow> fold_res body xs s')"

text \<open>
  \<^verbatim>\<open>n->prev()\<close> and \<^verbatim>\<open>n->next()\<close> in block \<open>b\<close>, on the circular list
  param, interior, return. For a handle that is no longer in the list (a destroyed node)
  the source reads freed memory; the model answers as for the return node (\<open>prev_node\<close>)
  or with the return node (\<open>next_node\<close>).
\<close>

definition prev_node :: "Graph \<Rightarrow> bid \<Rightarrow> nid \<Rightarrow> nid" where
  "prev_node g b n =
     (let B = Blocks g b in
      if n = param_node B then return_node B
      else last (param_node B # takeWhile (\<lambda>m. m \<noteq> n) (nodes B)))"

definition next_node :: "Graph \<Rightarrow> bid \<Rightarrow> nid \<Rightarrow> nid" where
  "next_node g b n =
     (let B = Blocks g b in
      if n = return_node B then param_node B
      else hd (tl (dropWhile (\<lambda>m. m \<noteq> n) (param_node B # nodes B)) @ [return_node B]))"

text \<open>
  \<^verbatim>\<open>for (Node* n : block->nodes()) body(n)\<close>: from the node after the parameter node to the
  return node, advancing by the \<^verbatim>\<open>next\<close> link as it is after the body ran.
\<close>

definition for_nodes ::
  "nat \<Rightarrow> ('s \<Rightarrow> Graph) \<Rightarrow> bid \<Rightarrow> (nid \<Rightarrow> 's \<Rightarrow> 's res) \<Rightarrow> 's \<Rightarrow> 's res" where
  "for_nodes k graph_of b body s =
     cursor_loop k (return_node (Blocks (graph_of s) b))
       (\<lambda>s n. bind_res (body n s) (\<lambda>s'. Some (Inr (next_node (graph_of s') b n, s'))))
       (next_node (graph_of s) b (param_node (Blocks (graph_of s) b))) s"

text \<open>The position of a node on the list param, interior, return of block \<open>b\<close>.\<close>

definition block_seq :: "Graph \<Rightarrow> bid \<Rightarrow> nid list" where
  "block_seq g b = param_node (Blocks g b) # nodes (Blocks g b) @ [return_node (Blocks g b)]"

definition position :: "Graph \<Rightarrow> bid \<Rightarrow> nid \<Rightarrow> nat" where
  "position g b n = length (takeWhile (\<lambda>m. m \<noteq> n) (block_seq g b))"

text \<open>\<^verbatim>\<open>a->isAfter(b)\<close> for two nodes of block \<open>b\<close>.\<close>

definition isAfter :: "Graph \<Rightarrow> bid \<Rightarrow> nid \<Rightarrow> nid \<Rightarrow> bool" where
  "isAfter g b n m = (position g b m < position g b n)"

section \<open>The subgraph slicer\<close>

text \<open>\<^verbatim>\<open>isViewOp\<close> (lines 231-243).\<close>

fun isViewOp :: "kind \<Rightarrow> bool" where
  "isViewOp aten_view = True"
| "isViewOp aten_view_as = True"
| "isViewOp aten_reshape = True"
| "isViewOp aten_reshape_as = True"
| "isViewOp aten_transpose = True"
| "isViewOp aten_expand = True"
| "isViewOp aten_expand_as = True"
| "isViewOp _ = False"

text \<open>\<^verbatim>\<open>shouldConsiderForMerge\<close> (lines 245-261).\<close>

definition shouldConsiderForMerge :: "Collab \<Rightarrow> Graph \<Rightarrow> nid \<Rightarrow> bool" where
  "shouldConsiderForMerge C g n =
     (if kind (Nodes g n) = prim_DifferentiableGraph then True
      else if kind (Nodes g n) = prim_Constant then False
      else if isViewOp (kind (Nodes g n)) then False
      else isDifferentiable C g n)"

text \<open>
  \<^verbatim>\<open>buildWorkBlocks\<close> (lines 157-195). The loop follows \<^verbatim>\<open>prev\<close> from the node before the
  return node down to the parameter node and mutates nothing, so it is a recursion over
  the interior in reverse order. A \<^verbatim>\<open>WorkBlock\<close> is the pair (begin, end).
\<close>

type_synonym WorkBlock = "nid \<times> nid"

fun workblocks_scan ::
  "Collab \<Rightarrow> Graph \<Rightarrow> nat \<Rightarrow> nid list \<Rightarrow> nid \<Rightarrow> nat \<Rightarrow> WorkBlock list
     \<Rightarrow> WorkBlock list \<times> nid \<times> nat" where
  "workblocks_scan C g minSize [] end_bound_node differentiable_nodes worklist =
     (worklist, end_bound_node, differentiable_nodes)"
| "workblocks_scan C g minSize (cur # rest) end_bound_node differentiable_nodes worklist =
     (let differentiable_nodes' =
            differentiable_nodes + (if shouldConsiderForMerge C g cur then 1 else 0) in
      if hasSideEffects (Nodes g cur) then
        workblocks_scan C g minSize rest cur 0
          (if minSize \<le> differentiable_nodes' then worklist @ [(cur, end_bound_node)]
           else worklist)
      else workblocks_scan C g minSize rest end_bound_node differentiable_nodes' worklist)"

definition buildWorkBlocks :: "Collab \<Rightarrow> Graph \<Rightarrow> bid \<Rightarrow> nat \<Rightarrow> WorkBlock list" where
  "buildWorkBlocks C g b minSize =
     (case workblocks_scan C g minSize (rev (nodes (Blocks g b)))
             (return_node (Blocks g b)) 0 [] of
        (worklist, end_bound_node, differentiable_nodes) \<Rightarrow>
          if minSize \<le> differentiable_nodes
          then worklist @ [(param_node (Blocks g b), end_bound_node)]
          else worklist)"

text \<open>
  \<^verbatim>\<open>sortReverseTopological\<close> (lines 217-229). \<^verbatim>\<open>std::sort\<close> leaves the order of values of
  one producer unspecified; the insertion sort used here keeps them in input order.
\<close>

fun insert_sorted :: "('a \<Rightarrow> 'a \<Rightarrow> bool) \<Rightarrow> 'a \<Rightarrow> 'a list \<Rightarrow> 'a list" where
  "insert_sorted lt x [] = [x]"
| "insert_sorted lt x (y # ys) =
     (if lt y x then y # insert_sorted lt x ys else x # y # ys)"

definition std_sort :: "('a \<Rightarrow> 'a \<Rightarrow> bool) \<Rightarrow> 'a list \<Rightarrow> 'a list" where
  "std_sort lt xs = foldr (insert_sorted lt) xs []"

definition sortReverseTopological :: "Graph \<Rightarrow> bid \<Rightarrow> vid list \<Rightarrow> vid list" where
  "sortReverseTopological g b ins =
     std_sort (\<lambda>x y. isAfter g b (node (Values g x)) (node (Values g y)))
       (filter (\<lambda>i. owningBlock (Nodes g (node (Values g i))) = b) ins)"

text \<open>
  \<^verbatim>\<open>tryMerge\<close> (lines 284-296): \<open>Inr None\<close> is \<^verbatim>\<open>c10::nullopt\<close>, \<open>Inr (Some (consumer, g'))\<close>
  is the returned group with the graph as the merge left it.
\<close>

definition tryMerge :: "Collab \<Rightarrow> Graph \<Rightarrow> nid \<Rightarrow> nid \<Rightarrow> error + (nid \<times> Graph) option" where
  "tryMerge C g consumer producer =
     (if kind (Nodes g consumer) \<noteq> prim_DifferentiableGraph then Inl AssertionFailed
      else if \<not> shouldConsiderForMerge C g producer then Inr None
      else case moveBeforeTopologicallyValid C g producer consumer of
             None \<Rightarrow> Inr None
           | Some g' \<Rightarrow>
               Inr (Some (consumer,
                          mergeNodeIntoSubgraphAndUpdateAliasing C g' producer consumer)))"

text \<open>The loop of lines 270-276 over the sorted inputs.\<close>

fun merge_inputs :: "Collab \<Rightarrow> Graph \<Rightarrow> nid \<Rightarrow> vid list \<Rightarrow> error + (nid \<times> Graph) option" where
  "merge_inputs C g consumer [] = Inr None"
| "merge_inputs C g consumer (input # rest) =
     (case tryMerge C g consumer (node (Values g input)) of
        Inl e \<Rightarrow> Inl e
      | Inr (Some merged) \<Rightarrow> Inr (Some merged)
      | Inr None \<Rightarrow> merge_inputs C g consumer rest)"

text \<open>
  \<^verbatim>\<open>scanNode\<close> (lines 263-280). The returned iterator is the node it points at:
  \<^verbatim>\<open>n->reverseIterator()\<close> points at \<open>n\<close> and \<^verbatim>\<open>++\<close> moves it to \<open>n\<close>'s predecessor.
\<close>

definition scanNode :: "Collab \<Rightarrow> bid \<Rightarrow> Graph \<Rightarrow> nid \<Rightarrow> error + (nid \<times> bool \<times> Graph)" where
  "scanNode C b g consumer =
     (if shouldConsiderForMerge C g consumer then
        (case (if kind (Nodes g consumer) \<noteq> prim_DifferentiableGraph
               then createSingletonSubgraphAndUpdateAliasing C g consumer
               else (consumer, g)) of
           (consumer', g1) \<Rightarrow>
             (case merge_inputs C g1 consumer'
                     (sortReverseTopological g1 b (inputs (Nodes g1 consumer'))) of
                Inl e \<Rightarrow> Inl e
              | Inr (Some (grp, g2)) \<Rightarrow> Inr (grp, True, g2)
              | Inr None \<Rightarrow> Inr (prev_node g1 b consumer', False, g1)))
      else Inr (prev_node g b consumer, False, g))"

text \<open>
  One sweep over a work block (lines 105-111): the cursor starts at
  \<^verbatim>\<open>workblock.end()->reverseIterator()\<close>, that is at the end node itself, and the loop runs
  until the cursor is the begin node. The state carries \<open>any_changed\<close>, the graph, and (for
  the statements about the sweep only) the list of nodes handed to \<open>scanNode\<close> so far.
\<close>

definition sweep :: "nat \<Rightarrow> Collab \<Rightarrow> bid \<Rightarrow> WorkBlock \<Rightarrow> Graph \<Rightarrow> (bool \<times> nid list \<times> Graph) res" where
  "sweep k C b workblock g =
     cursor_loop k (fst workblock)
       (\<lambda>(any_changed, visited, g) it.
           case scanNode C b g it of
             Inl e \<Rightarrow> Some (Inl e)
           | Inr (it', changed, g') \<Rightarrow>
               Some (Inr (it', (any_changed \<or> changed, visited @ [it], g'))))
       (snd workblock) (False, [], g)"

text \<open>The \<^verbatim>\<open>while (any_changed)\<close> loop of lines 102-112 for one work block.\<close>

definition process_workblock :: "nat \<Rightarrow> Collab \<Rightarrow> bid \<Rightarrow> WorkBlock \<Rightarrow> Graph \<Rightarrow> Graph res" where
  "process_workblock k C b workblock g =
     changed_loop k
       (\<lambda>g. bind_res (sweep k C b workblock g)
               (\<lambda>(any_changed, visited, g'). Some (Inr (any_changed, g'))))
       g"

text \<open>\<^verbatim>\<open>buildupSubgraphs\<close> (lines 83-123).\<close>

fun buildupSubgraphs :: "nat \<Rightarrow> Collab \<Rightarrow> nat \<Rightarrow> bid \<Rightarrow> Graph \<Rightarrow> Graph res" where
  "buildupSubgraphs 0 C minSize b g = None"
| "buildupSubgraphs (Suc k) C minSize b g =
     bind_res (fold_res (process_workblock k C b) (buildWorkBlocks C g b minSize) g)
       (for_nodes k (\<lambda>g. g) b
          (\<lambda>n g. fold_res (buildupSubgraphs k C minSize) (blocks (Nodes g n)) g))"

text \<open>
  \<^verbatim>\<open>unfuseAliasedOutputs\<close> (lines 126-155). The range-for over the reversed list advances by
  the \<^verbatim>\<open>prev\<close> link as it is after the two repairs ran; both repairs always run.
\<close>

definition unfuse_sweep :: "nat \<Rightarrow> Collab \<Rightarrow> bid \<Rightarrow> Graph \<Rightarrow> (bool \<times> Graph) res" where
  "unfuse_sweep k C b g =
     cursor_loop k (param_node (Blocks g b))
       (\<lambda>(any_changed, g) n.
           if kind (Nodes g n) = prim_DifferentiableGraph then
             (case unmergeAliasedOutputs C g n of
                (c1, g1) \<Rightarrow>
                  (case unmergeOutputsAlisingInputs C g1 n of
                     (c2, g2) \<Rightarrow>
                       Some (Inr (prev_node g2 b n, ((any_changed \<or> c1) \<or> c2, g2)))))
           else Some (Inr (prev_node g b n, (any_changed, g))))
       (prev_node g b (return_node (Blocks g b))) (False, g)"

fun unfuseAliasedOutputs :: "nat \<Rightarrow> Collab \<Rightarrow> bid \<Rightarrow> Graph \<Rightarrow> Graph res" where
  "unfuseAliasedOutputs 0 C b g = None"
| "unfuseAliasedOutputs (Suc k) C b g =
     bind_res (changed_loop k (unfuse_sweep k C b) g)
       (for_nodes k (\<lambda>g. g) b
          (\<lambda>n g. fold_res (unfuseAliasedOutputs k C) (blocks (Nodes g n)) g))"

text \<open>
  \<^verbatim>\<open>inlineIfTooSmall\<close> (lines 201-215). \<open>reaches_min\<close> is the counting loop: it answers
  \<open>True\<close> as soon as the count of executed nodes reaches the minimum.
\<close>

fun reaches_min :: "Graph \<Rightarrow> nat \<Rightarrow> nid list \<Rightarrow> nat \<Rightarrow> bool" where
  "reaches_min g minSize [] i = False"
| "reaches_min g minSize (n # rest) i =
     (let i' = i + (if notExecutedOp (Nodes g n) then 0 else 1) in
      if minSize \<le> i' then True else reaches_min g minSize rest i')"

definition inlineIfTooSmall :: "Collab \<Rightarrow> nat \<Rightarrow> Graph \<Rightarrow> nid \<Rightarrow> error + (bool \<times> Graph)" where
  "inlineIfTooSmall C minSize g n =
     (if kind (Nodes g n) \<noteq> prim_DifferentiableGraph then Inl AssertionFailed
      else case Subgraph (Nodes g n) of
             None \<Rightarrow> Inl MissingAttribute
           | Some subgraph \<Rightarrow>
               if reaches_min g minSize (nodes (Blocks g subgraph)) 0 then Inr (False, g)
               else Inr (True, unmergeSubgraph C g n))"

text \<open>
  \<^verbatim>\<open>cleanupSubgraphs\<close> (lines 57-81). The state is the graph and \<^verbatim>\<open>diff_nodes_\<close>. The
  predecessor is read before the current node may be destroyed.
\<close>

definition cleanup_step :: "Collab \<Rightarrow> nat \<Rightarrow> bid \<Rightarrow> Graph \<times> nid list \<Rightarrow> nid \<Rightarrow> (nid \<times> Graph \<times> nid list) res" where
  "cleanup_step C minSize b s curNode =
     (case s of (g, diff_nodes) \<Rightarrow>
        let prevNode = prev_node g b curNode in
        if kind (Nodes g curNode) = prim_DifferentiableGraph then
          (case Subgraph (Nodes g curNode) of
             None \<Rightarrow> Some (Inl MissingAttribute)
           | Some subgraph \<Rightarrow>
               (case inlineIfTooSmall C minSize
                       (EliminateCommonSubexpression C g subgraph) curNode of
                  Inl e \<Rightarrow> Some (Inl e)
                | Inr (inlined, g') \<Rightarrow>
                    Some (Inr (prevNode, g',
                               if inlined then diff_nodes else diff_nodes @ [curNode]))))
        else Some (Inr (prevNode, g, diff_nodes)))"

fun cleanupSubgraphs :: "nat \<Rightarrow> Collab \<Rightarrow> nat \<Rightarrow> bid \<Rightarrow> Graph \<times> nid list \<Rightarrow> (Graph \<times> nid list) res" where
  "cleanupSubgraphs 0 C minSize b s = None"
| "cleanupSubgraphs (Suc k) C minSize b s =
     bind_res
       (cursor_loop k (param_node (Blocks (fst s) b)) (cleanup_step C minSize b)
          (prev_node (fst s) b (return_node (Blocks (fst s) b))) s)
       (for_nodes k fst b
          (\<lambda>n s. fold_res (cleanupSubgraphs k C minSize) (blocks (Nodes (fst s) n)) s))"

text \<open>\<^verbatim>\<open>SubgraphSlicer::run\<close> (lines 43-55) on the block of the whole graph.\<close>

definition run :: "nat \<Rightarrow> Collab \<Rightarrow> nat \<Rightarrow> Graph \<Rightarrow> (Graph \<times> nid list) res" where
  "run k C minSize g =
     bind_res (buildupSubgraphs k C minSize (block g) g) (\<lambda>g1.
     bind_res (unfuseAliasedOutputs k C (block g1) g1) (\<lambda>g2.
     bind_res (cleanupSubgraphs k C minSize (block g2) (g2, [])) (\<lambda>(g3, diff_nodes).
     Some (Inr (EliminateCommonSubexpression C g3 (block g3), diff_nodes)))))"

text \<open>\<^verbatim>\<open>AddRequiresGradOnOutputNodes\<close> (lines 382-391).\<close>

fun AddRequiresGradOnOutputNodes :: "nat \<Rightarrow> bid \<Rightarrow> Graph \<Rightarrow> Graph res" where
  "AddRequiresGradOnOutputNodes 0 b g = None"
| "AddRequiresGradOnOutputNodes (Suc k) b g =
     for_nodes k (\<lambda>g. g) b
       (\<lambda>n g.
           bind_res
             (if kind (Nodes g n) = prim_DifferentiableGraph
              then Some (AddRequiresGradToDifferentiableGraph g n) else Some (Inr g))
             (\<lambda>g'. fold_res (AddRequiresGradOnOutputNodes k) (blocks (Nodes g' n)) g'))
       g"

text \<open>
  \<^verbatim>\<open>CreateAutodiffSubgraphs\<close> (lines 394-405): the mutated graph and the returned
  \<^verbatim>\<open>diff_nodes\<close>.
\<close>

definition CreateAutodiffSubgraphs :: "nat \<Rightarrow> Collab \<Rightarrow> Graph \<Rightarrow> nat \<Rightarrow> (Graph \<times> nid list) res" where
  "CreateAutodiffSubgraphs k C graph threshold =
     bind_res (run k C threshold graph) (\<lambda>(g, diff_nodes).
     bind_res (AddRequiresGradOnOutputNodes k (block g) g) (\<lambda>g'.
     Some (Inr (g', diff_nodes))))"

section \<open>Reading the flag search declaratively\<close>

text \<open>
  The flag a node exposes directly: the flag of the profiled type of a type-profiling
  node, when that type is a tensor type.
\<close>

definition profile_flag :: "Graph \<Rightarrow> nid \<Rightarrow> bool option" where
  "profile_flag g n =
     (if kind (Nodes g n) = prim_profile then
        (case profiled_type (Nodes g n) of Some (TensorType r _) \<Rightarrow> r | _ \<Rightarrow> None)
      else None)"

text \<open>The first flag of a list of optional flags.\<close>

definition first_flag :: "bool option list \<Rightarrow> bool option" where
  "first_flag fs = (case filter (\<lambda>f. f \<noteq> None) fs of [] \<Rightarrow> None | f # _ \<Rightarrow> f)"

text \<open>
  The flag a use yields one level through a group node: the first flag exposed by a profile
  node among the uses of the subgraph input at the use's offset.
\<close>

definition group_flag :: "Graph \<Rightarrow> Use \<Rightarrow> bool option" where
  "group_flag g use =
     (if kind (Nodes g (user use)) = prim_DifferentiableGraph then
        (case Subgraph (Nodes g (user use)) of
           None \<Rightarrow> None
         | Some dg \<Rightarrow>
             first_flag (map (\<lambda>u. profile_flag g (user u))
                           (uses (Values g (graph_inputs g dg ! offset use)))))
      else None)"

text \<open>What one use yields: the direct flag, else the flag through the group.\<close>

definition use_flag :: "Graph \<Rightarrow> Use \<Rightarrow> bool option" where
  "use_flag g use =
     (case profile_flag g (user use) of Some r \<Rightarrow> Some r | None \<Rightarrow> group_flag g use)"

text \<open>
  A use by a group node is well formed when the group node has its subgraph and the
  offset is an input index of the subgraph.
\<close>

definition group_use_ok :: "Graph \<Rightarrow> Use \<Rightarrow> bool" where
  "group_use_ok g use =
     (kind (Nodes g (user use)) = prim_DifferentiableGraph \<longrightarrow>
        (case Subgraph (Nodes g (user use)) of
           None \<Rightarrow> False
         | Some dg \<Rightarrow> offset use < length (graph_inputs g dg)))"

text \<open>
  The search as the specification words it: first the whole use list for a profile node
  that exposes the flag directly, and only when there is none, the uses through group
  nodes.
\<close>

definition claimed_flag :: "Graph \<Rightarrow> Use list \<Rightarrow> bool option" where
  "claimed_flag g us =
     (case first_flag (map (\<lambda>u. profile_flag g (user u)) us) of
        Some r \<Rightarrow> Some r
      | None \<Rightarrow> first_flag (map (group_flag g) us))"

text \<open>
  The frame of the propagator: between \<open>g\<close> and \<open>g'\<close> nothing changed but the types of
  values in \<open>outs\<close>, and a changed type went from an unflagged tensor type to the same
  tensor type with a flag, on a value that no profile node produces.
\<close>

definition flags_only :: "vid set \<Rightarrow> Graph \<Rightarrow> Graph \<Rightarrow> bool" where
  "flags_only outs g g' =
     (block g' = block g \<and> Nodes g' = Nodes g \<and> Blocks g' = Blocks g \<and>
      next_handle g' = next_handle g \<and>
      (\<forall>v. node (Values g' v) = node (Values g v) \<and> uses (Values g' v) = uses (Values g v) \<and>
           (vtype (Values g' v) \<noteq> vtype (Values g v) \<longrightarrow>
              v \<in> outs \<and> kind (Nodes g (node (Values g v))) \<noteq> prim_profile \<and>
              (\<exists>info r. vtype (Values g v) = TensorType None info \<and>
                        vtype (Values g' v) = TensorType (Some r) info))))"

section \<open>Example graphs\<close>

definition default_node :: Node where
  "default_node = \<lparr>kind = other_op [], inputs = [], outputs = [], blocks = [], owningBlock = 0,
     hasSideEffects = False, notExecutedOp = False, Subgraph = None, profiled_type = None\<rparr>"

definition default_value :: Value where
  "default_value = \<lparr>node = 0, vtype = OtherType 0, uses = []\<rparr>"

definition default_block :: Block where
  "default_block = \<lparr>param_node = 0, return_node = 0, nodes = []\<rparr>"

text \<open>
  The outer block holds the group node 2, a second group node 7 and a profile node 3. The
  only output of group 2 (outer value 10, subgraph value 20) is used first by group 7 and
  then by the profile node 3. Inside group 7 the profile node 12 uses the subgraph input
  30 and exposes the flag \<open>False\<close>; the profile node 3 exposes \<open>True\<close>.
\<close>

definition grad_example :: Graph where
  "grad_example =
     \<lparr>block = 0,
      Nodes = (\<lambda>_. default_node)
        (0 := default_node\<lparr>kind := prim_Param\<rparr>,
         1 := default_node\<lparr>kind := prim_Return\<rparr>,
         2 := default_node\<lparr>kind := prim_DifferentiableGraph, outputs := [10], Subgraph := Some 1\<rparr>,
         3 := default_node\<lparr>kind := prim_profile, inputs := [10], outputs := [11],
                profiled_type := Some (TensorType (Some True) 7)\<rparr>,
         4 := default_node\<lparr>kind := prim_Param, owningBlock := 1\<rparr>,
         5 := default_node\<lparr>kind := prim_Return, inputs := [20], owningBlock := 1\<rparr>,
         6 := default_node\<lparr>kind := other_op ''aten::mul'', outputs := [20], owningBlock := 1\<rparr>,
         7 := default_node\<lparr>kind := prim_DifferentiableGraph, inputs := [10], Subgraph := Some 2\<rparr>,
         8 := default_node\<lparr>kind := prim_Param, outputs := [30], owningBlock := 2\<rparr>,
         9 := default_node\<lparr>kind := prim_Return, owningBlock := 2\<rparr>,
         12 := default_node\<lparr>kind := prim_profile, inputs := [30], outputs := [31], owningBlock := 2,
                profiled_type := Some (TensorType (Some False) 7)\<rparr>),
      Values = (\<lambda>_. default_value)
        (10 := \<lparr>node = 2, vtype = TensorType None 7,
                uses = [\<lparr>user = 7, offset = 0\<rparr>, \<lparr>user = 3, offset = 0\<rparr>]\<rparr>,
         11 := \<lparr>node = 3, vtype = TensorType (Some True) 7, uses = []\<rparr>,
         20 := \<lparr>node = 6, vtype = TensorType None 7, uses = [\<lparr>user = 5, offset = 0\<rparr>]\<rparr>,
         30 := \<lparr>node = 8, vtype = TensorType None 7, uses = [\<lparr>user = 12, offset = 0\<rparr>]\<rparr>,
         31 := \<lparr>node = 12, vtype = TensorType (Some False) 7, uses = []\<rparr>),
      Blocks = (\<lambda>_. default_block)
        (0 := \<lparr>param_node = 0, return_node = 1, nodes = [2, 7, 3]\<rparr>,
         1 := \<lparr>param_node = 4, return_node = 5, nodes = [6]\<rparr>,
         2 := \<lparr>param_node = 8, return_node = 9, nodes = [12]\<rparr>),
      next_handle = 32\<rparr>"


section \<open>Reading the scan of one node declaratively\<close>

text \<open>
  An input value can be merged into the group \<open>consumer\<close> when its producer passes the
  candidacy filter and the alias database performs the move.
\<close>

definition mergeable :: "Collab \<Rightarrow> Graph \<Rightarrow> nid \<Rightarrow> vid \<Rightarrow> bool" where
  "mergeable C g consumer v =
     (shouldConsiderForMerge C g (node (Values g v)) \<and>
      moveBeforeTopologicallyValid C g (node (Values g v)) consumer \<noteq> None)"


section \<open>Work blocks, read declaratively\<close>

text \<open>
  While the backward scan of \<^verbatim>\<open>buildWorkBlocks\<close> has not met a
  side-effecting node since the boundary \<open>e\<close>, with \<open>cnt\<close> candidates
  counted so far: the work block emitted at the first side-effecting node of the rest
  \<open>ys\<close> of the scan. The side-effecting node itself is counted when it is a
  candidate, since the count is incremented before the side effect is tested (lines 170-181).
\<close>

definition first_block :: "Collab \<Rightarrow> Graph \<Rightarrow> nat \<Rightarrow> nid list \<Rightarrow> nid \<Rightarrow> nat \<Rightarrow> WorkBlock \<Rightarrow> bool" where
  "first_block C g m ys e cnt w =
     (\<exists>mid r. ys = mid @ fst w # r \<and> (\<forall>n\<in>set mid. \<not> hasSideEffects (Nodes g n)) \<and>
        hasSideEffects (Nodes g (fst w)) \<and> snd w = e \<and>
        m \<le> cnt + length (filter (shouldConsiderForMerge C g) mid)
                 + (if shouldConsiderForMerge C g (fst w) then 1 else 0))"

text \<open>
  A work block emitted between two side-effecting nodes of the rest of the scan.
\<close>

definition later_block :: "Collab \<Rightarrow> Graph \<Rightarrow> nat \<Rightarrow> nid list \<Rightarrow> WorkBlock \<Rightarrow> bool" where
  "later_block C g m ys w =
     (\<exists>p mid r. ys = p @ snd w # mid @ fst w # r \<and> (\<forall>n\<in>set mid. \<not> hasSideEffects (Nodes g n)) \<and>
        hasSideEffects (Nodes g (fst w)) \<and> hasSideEffects (Nodes g (snd w)) \<and>
        m \<le> length (filter (shouldConsiderForMerge C g) mid)
                 + (if shouldConsiderForMerge C g (fst w) then 1 else 0))"

text \<open>
  The work block flushed after the scan (lines 186-190): it begins at the parameter node and
  ends at the last boundary.
\<close>

definition tail_block :: "Collab \<Rightarrow> Graph \<Rightarrow> nat \<Rightarrow> nid list \<Rightarrow> nid \<Rightarrow> nat \<Rightarrow> nid \<Rightarrow> bool" where
  "tail_block C g m ys e cnt en =
     ((\<forall>n\<in>set ys. \<not> hasSideEffects (Nodes g n)) \<and> en = e \<and>
        m \<le> cnt + length (filter (shouldConsiderForMerge C g) ys)
      \<or> (\<exists>p mid. ys = p @ en # mid \<and> hasSideEffects (Nodes g en) \<and>
            (\<forall>n\<in>set mid. \<not> hasSideEffects (Nodes g n)) \<and>
            m \<le> length (filter (shouldConsiderForMerge C g) mid)))"


section \<open>The size filter, read declaratively\<close>







text \<open>
  One step of the cleanup on the node \<open>cur\<close> leaves the parameter node of the block where it
  is and the nodes before \<open>cur\<close> at the head of the node list. Nothing is said of \<open>cur\<close> and
  of the nodes after it: when the group \<open>cur\<close> is dissolved, its members take its place.
\<close>

definition block_order_kept :: "bid \<Rightarrow> nid \<Rightarrow> Graph \<Rightarrow> Graph \<Rightarrow> bool" where
  "block_order_kept b cur g g' =
     (param_node (Blocks g' b) = param_node (Blocks g b) \<and>
      prefix (takeWhile (\<lambda>m. m \<noteq> cur) (nodes (Blocks g b))) (nodes (Blocks g' b)))"

text \<open>
  What the ordering of the returned list needs of the collaborators: on the graphs
  \<open>Inv\<close> the node list of the block has no duplicates, and a cleanup step keeps
  \<open>Inv\<close> and the part of the block that is still to be visited.
\<close>

definition cleanup_keeps_order :: "(Graph \<Rightarrow> bool) \<Rightarrow> Collab \<Rightarrow> nat \<Rightarrow> bid \<Rightarrow> bool" where
  "cleanup_keeps_order Inv C minSize b =
     ((\<forall>g. Inv g \<longrightarrow> distinct (block_seq g b)) \<and>
      (\<forall>g d cur it' g' d'.
          Inv g \<and> cur \<in> set (nodes (Blocks g b)) \<and>
          cleanup_step C minSize b (g, d) cur = Some (Inr (it', g', d')) \<longrightarrow>
          Inv g' \<and> block_order_kept b cur g g'))"

text \<open>
  The recorded list only grows at its end.
\<close>

definition extends :: "nid list \<Rightarrow> Graph \<times> nid list \<Rightarrow> bool" where
  "extends d s = (\<exists>ext. snd s = d @ ext)"

section \<open>The merge sweep, measured\<close>






section \<open>The boundaries of a work block\<close>


section \<open>A concrete set of collaborators and the boundary scenario\<close>

text \<open>
  Modelled from the spec: the index of a value in a list of values.
\<close>

definition index_of :: "'a \<Rightarrow> 'a list \<Rightarrow> nat" where
  "index_of x xs = length (takeWhile (\<lambda>y. y \<noteq> x) xs)"

text \<open>
  Modelled from the spec: a node that stops reading its inputs is removed from the use lists of
  those values.
\<close>

definition drop_uses :: "nid \<Rightarrow> vid list \<Rightarrow> (vid \<Rightarrow> Value) \<Rightarrow> (vid \<Rightarrow> Value)" where
  "drop_uses u old V = fold (\<lambda>x V. V(x := (V x)\<lparr>uses := filter (\<lambda>a. user a \<noteq> u) (uses (V x))\<rparr>)) old V"

text \<open>
  Modelled from the spec: a node that reads a list of inputs is appended to the use list of
  each, with the offset of the input.
\<close>

definition add_uses :: "nid \<Rightarrow> vid list \<Rightarrow> (vid \<Rightarrow> Value) \<Rightarrow> (vid \<Rightarrow> Value)" where
  "add_uses u new V =
     fold (\<lambda>(j, x) V. V(x := (V x)\<lparr>uses := uses (V x) @ [\<lparr>user = u, offset = j\<rparr>]\<rparr>)) (enumerate 0 new) V"

text \<open>
  Modelled from the spec: replacing the inputs of a node keeps the use lists of the values
  consistent with the inputs.
\<close>

definition set_inputs :: "nid \<Rightarrow> vid list \<Rightarrow> Graph \<Rightarrow> Graph" where
  "set_inputs u new g =
     g\<lparr>Nodes := (Nodes g)(u := (Nodes g u)\<lparr>inputs := new\<rparr>),
       Values := add_uses u new (drop_uses u (inputs (Nodes g u)) (Values g))\<rparr>"

text \<open>
  Modelled from the spec: fresh values are created with the type of the value they stand for (a
  subgraph input has the type of the outer value, a moved output the type of the group output).
\<close>

definition new_values :: "nid \<Rightarrow> (vid \<times> vid) list \<Rightarrow> Graph \<Rightarrow> Graph" where
  "new_values producer vs g =
     g\<lparr>Values := fold (\<lambda>(v, like) V. V(v := \<lparr>node = producer, vtype = vtype (V like), uses = []\<rparr>))
                   vs (Values g)\<rparr>"

text \<open>
  Modelled from the spec: the values become outputs of the given node.
\<close>

definition set_producer :: "nid \<Rightarrow> vid list \<Rightarrow> Graph \<Rightarrow> Graph" where
  "set_producer producer vs g =
     g\<lparr>Values := fold (\<lambda>v V. V(v := (V v)\<lparr>node := producer\<rparr>)) vs (Values g)\<rparr>"

text \<open>
  Modelled from the spec: a substitution of values, the identity where it has no entry.
\<close>

definition subst_value :: "(vid \<times> vid) list \<Rightarrow> vid \<Rightarrow> vid" where
  "subst_value s v = (case map_of s v of None \<Rightarrow> v | Some w \<Rightarrow> w)"

text \<open>
  Modelled from the spec: every listed user has its inputs renamed by the substitution.
\<close>

definition rewire :: "(vid \<times> vid) list \<Rightarrow> nid list \<Rightarrow> Graph \<Rightarrow> Graph" where
  "rewire s us g = fold (\<lambda>u g. set_inputs u (map (subst_value s) (inputs (Nodes g u))) g) us g"

text \<open>
  Modelled from the spec: the next unused handles of the store.
\<close>

definition fresh_handles :: "nat \<Rightarrow> nat \<Rightarrow> nat list" where
  "fresh_handles f n = map (\<lambda>j. f + j) [0..<n]"

text \<open>
  Modelled from the spec: a group node of kind \<^verbatim>\<open>DifferentiableGraph\<close>
  takes the place of the wrapped node in its block and takes over its inputs and its output
  values; the node moves into a new subgraph whose inputs mirror the inputs of the group and
  whose outputs are the fresh outputs of the node.
\<close>

definition wrap_node ::
  "nid \<Rightarrow> nat \<Rightarrow> Node \<Rightarrow> vid list \<Rightarrow> vid list \<Rightarrow> Graph \<Rightarrow> Graph" where
  "wrap_node n f N inner_ins inner_outs g =
     set_inputs (f + 2) inner_outs
       (set_inputs f (inputs N)
          (set_inputs n inner_ins
             (set_producer f (outputs N)
                (new_values n (zip inner_outs (outputs N))
                   (new_values (f + 1) (zip inner_ins (inputs N))
                      (g\<lparr>next_handle := f + 3 + length (inputs N) + length (outputs N),
                         Blocks := (Blocks g)
                           (owningBlock N := (Blocks g (owningBlock N))
                              \<lparr>nodes := map (\<lambda>m. if m = n then f else m)
                                          (nodes (Blocks g (owningBlock N)))\<rparr>,
                            f := \<lparr>param_node = f + 1, return_node = f + 2, nodes = [n]\<rparr>),
                         Nodes := (Nodes g)
                           (f := \<lparr>kind = prim_DifferentiableGraph, inputs = [], outputs = outputs N,
                                  blocks = [], owningBlock = owningBlock N,
                                  hasSideEffects = hasSideEffects N, notExecutedOp = False,
                                  Subgraph = Some f, profiled_type = None\<rparr>,
                            f + 1 := \<lparr>kind = prim_Param, inputs = [], outputs = inner_ins,
                                      blocks = [], owningBlock = f, hasSideEffects = False,
                                      notExecutedOp = True, Subgraph = None, profiled_type = None\<rparr>,
                            f + 2 := \<lparr>kind = prim_Return, inputs = [], outputs = [], blocks = [],
                                      owningBlock = f, hasSideEffects = False, notExecutedOp = True,
                                      Subgraph = None, profiled_type = None\<rparr>,
                            n := N\<lparr>owningBlock := f, outputs := inner_outs\<rparr>)\<rparr>))))))"

text \<open>
  Modelled from the spec: \<^verbatim>\<open>createSingletonSubgraphAndUpdateAliasing\<close>
  wraps one candidate node into a group node holding only that node and returns the group node
  (SubgraphBuilder, step 2).
\<close>

definition spec_createSingleton :: "Graph \<Rightarrow> nid \<Rightarrow> nid \<times> Graph" where
  "spec_createSingleton g n =
     (next_handle g,
      wrap_node n (next_handle g) (Nodes g n)
        (fresh_handles (next_handle g + 3) (length (inputs (Nodes g n))))
        (fresh_handles (next_handle g + 3 + length (inputs (Nodes g n)))
           (length (outputs (Nodes g n))))
        g)"

text \<open>
  Modelled from the spec: a node can be crossed by a moving producer when it has no side
  effect, owns no block and reads none of the producer's outputs.
\<close>

definition crossable :: "Graph \<Rightarrow> nid \<Rightarrow> nid \<Rightarrow> bool" where
  "crossable g p x =
     (\<not> hasSideEffects (Nodes g x) \<and> blocks (Nodes g x) = [] \<and>
      list_all (\<lambda>v. v \<notin> set (outputs (Nodes g p))) (inputs (Nodes g x)))"

text \<open>
  Modelled from the spec: the producer is taken out of the list and put back immediately before
  the consumer, provided every node in between can be crossed.
\<close>

definition move_in_list :: "Graph \<Rightarrow> nid \<Rightarrow> nid \<Rightarrow> nid list \<Rightarrow> nid list \<Rightarrow> nid list option" where
  "move_in_list g p c xs after_p =
     (if p \<in> set xs \<and> p \<noteq> c \<and> c \<in> set after_p \<and>
         list_all (crossable g p) (takeWhile (\<lambda>m. m \<noteq> c) after_p)
      then Some (takeWhile (\<lambda>m. m \<noteq> p) xs @ takeWhile (\<lambda>m. m \<noteq> c) after_p
                 @ p # dropWhile (\<lambda>m. m \<noteq> c) after_p)
      else None)"

text \<open>
  Modelled from the spec: the alias oracle either moves the producer immediately before the
  group, or refuses and changes nothing; a reorder is refused when it would cross a
  side-effecting node or a node that depends on the producer.
\<close>

definition spec_moveBefore :: "Graph \<Rightarrow> nid \<Rightarrow> nid \<Rightarrow> Graph option" where
  "spec_moveBefore g p c =
     (case move_in_list g p c (nodes (Blocks g (owningBlock (Nodes g c))))
             (tl (dropWhile (\<lambda>m. m \<noteq> p) (nodes (Blocks g (owningBlock (Nodes g c)))))) of
        None \<Rightarrow> None
      | Some xs \<Rightarrow>
          Some (g\<lparr>Blocks := (Blocks g)
                   (owningBlock (Nodes g c) := (Blocks g (owningBlock (Nodes g c)))\<lparr>nodes := xs\<rparr>)\<rparr>))"

text \<open>
  Modelled from the spec: values of the merged producer that are still used outside become
  additional outputs of the group and of its subgraph.
\<close>

definition export_outputs :: "nid \<Rightarrow> nid \<Rightarrow> (vid \<times> vid) list \<Rightarrow> Graph \<Rightarrow> Graph" where
  "export_outputs c ret live g =
     set_inputs ret (inputs (Nodes g ret) @ map snd live)
       (set_producer c (map fst live)
          (g\<lparr>Nodes := (Nodes g)(c := (Nodes g c)\<lparr>outputs := outputs (Nodes g c) @ map fst live\<rparr>)\<rparr>))"

text \<open>
  Modelled from the spec: the producer outputs that still have a use, each with its value
  inside the subgraph.
\<close>

definition live_outputs :: "vid list \<Rightarrow> vid list \<Rightarrow> Graph \<Rightarrow> (vid \<times> vid) list" where
  "live_outputs outs inner_outs g = filter (\<lambda>(v, q). uses (Values g v) \<noteq> []) (zip outs inner_outs)"

text \<open>
  Modelled from the spec: the producer leaves the outer block and becomes the first node of the
  subgraph; a group that absorbs a side-effecting node has a side effect.
\<close>

definition move_into :: "nid \<Rightarrow> nid \<Rightarrow> bid \<Rightarrow> nid \<Rightarrow> vid list \<Rightarrow> vid list \<Rightarrow> Graph \<Rightarrow> Graph" where
  "move_into p c sub par inner_outs par_outs g =
     g\<lparr>Nodes := (Nodes g)
          (p := (Nodes g p)\<lparr>owningBlock := sub, outputs := inner_outs\<rparr>,
           par := (Nodes g par)\<lparr>outputs := par_outs\<rparr>,
           c := (Nodes g c)\<lparr>hasSideEffects :=
                  hasSideEffects (Nodes g c) \<or> hasSideEffects (Nodes g p)\<rparr>),
       Blocks := (Blocks g)
          (owningBlock (Nodes g c) := (Blocks g (owningBlock (Nodes g c)))
              \<lparr>nodes := filter (\<lambda>m. m \<noteq> p) (nodes (Blocks g (owningBlock (Nodes g c))))\<rparr>,
           sub := (Blocks g sub)\<lparr>nodes := p # nodes (Blocks g sub)\<rparr>)\<rparr>"

text \<open>
  Modelled from the spec: the producer outputs still used outside are exported from the group.
\<close>

definition export_live :: "nid \<Rightarrow> nid \<Rightarrow> vid list \<Rightarrow> vid list \<Rightarrow> Graph \<Rightarrow> Graph" where
  "export_live c ret outs inner_outs g = export_outputs c ret (live_outputs outs inner_outs g) g"

text \<open>
  Modelled from the spec: merging a producer into a group moves the node into the subgraph,
  turns the group inputs it produced into internal values, adds the producer's own inputs as
  inputs of the group and exports what is still used outside.
\<close>

definition absorb ::
  "nid \<Rightarrow> nid \<Rightarrow> bid \<Rightarrow> nid \<Rightarrow> nid \<Rightarrow> vid list \<Rightarrow> vid list \<Rightarrow> vid list
     \<Rightarrow> (vid \<times> vid) list \<Rightarrow> (vid \<times> vid) list \<Rightarrow> vid list \<Rightarrow> vid list \<Rightarrow> Graph \<Rightarrow> Graph" where
  "absorb p c sub par ret ins outs inner_outs kept absorbed new_ins fresh_ins g =
     export_live c ret outs inner_outs
       (set_inputs c (map fst kept @ new_ins)
          (move_into p c sub par inner_outs (map snd kept @ fresh_ins)
             (set_inputs p (map (subst_value (kept @ zip new_ins fresh_ins)) ins)
                (rewire (map (\<lambda>(x, y). (y, inner_outs ! index_of x outs)) absorbed)
                   (nodes (Blocks g sub) @ [ret])
                   (new_values par (zip fresh_ins new_ins)
                      (new_values p (zip inner_outs outs)
                         (g\<lparr>next_handle := next_handle g + length outs + length new_ins\<rparr>)))))))"

text \<open>
  Modelled from the spec: the fresh handles and the new group inputs of a merge.
\<close>

definition absorb_plan ::
  "nid \<Rightarrow> nid \<Rightarrow> bid \<Rightarrow> nid \<Rightarrow> nid \<Rightarrow> vid list \<Rightarrow> vid list \<Rightarrow> (vid \<times> vid) list \<Rightarrow> Graph \<Rightarrow> Graph" where
  "absorb_plan p c sub par ret ins outs kept g =
     absorb p c sub par ret ins outs (fresh_handles (next_handle g) (length outs))
       kept
       (filter (\<lambda>(x, y). x \<in> set outs) (zip (inputs (Nodes g c)) (outputs (Nodes g par))))
       (remdups (filter (\<lambda>x. x \<notin> set (map fst kept)) ins))
       (fresh_handles (next_handle g + length outs)
          (length (remdups (filter (\<lambda>x. x \<notin> set (map fst kept)) ins))))
       g"

text \<open>
  Modelled from the spec: merging a producer that is not a group into the group: the plan of
  the merge is made from the inputs and outputs of the producer and of the group.
\<close>

definition absorb_node :: "Graph \<Rightarrow> nid \<Rightarrow> nid \<Rightarrow> Graph" where
  "absorb_node g p c =
     (case Subgraph (Nodes g c) of
        None \<Rightarrow> g
      | Some sub \<Rightarrow>
          absorb_plan p c sub (param_node (Blocks g sub)) (return_node (Blocks g sub))
            (inputs (Nodes g p)) (outputs (Nodes g p))
            (filter (\<lambda>(x, y). x \<notin> set (outputs (Nodes g p)))
               (zip (inputs (Nodes g c)) (outputs (Nodes g (param_node (Blocks g sub))))))
            g)"

text \<open>
  Modelled from the spec: the members of a dissolved group return to the parent block at the
  position of the group node.
\<close>

definition splice_members :: "nid \<Rightarrow> bid \<Rightarrow> bid \<Rightarrow> nid list \<Rightarrow> Graph \<Rightarrow> Graph" where
  "splice_members n b sub members g =
     g\<lparr>Nodes := fold (\<lambda>m N. N(m := (N m)\<lparr>owningBlock := b\<rparr>)) members (Nodes g),
       Blocks := (Blocks g)
         (b := (Blocks g b)\<lparr>nodes := concat (map (\<lambda>m. if m = n then members else [m])
                                              (nodes (Blocks g b)))\<rparr>,
          sub := (Blocks g sub)\<lparr>nodes := []\<rparr>)\<rparr>"

text \<open>
  Modelled from the spec: the group node and the return node of its subgraph stop using their
  inputs and the members are spliced back.
\<close>

definition release_members :: "nid \<Rightarrow> bid \<Rightarrow> bid \<Rightarrow> nid \<Rightarrow> nid list \<Rightarrow> Graph \<Rightarrow> Graph" where
  "release_members n b sub ret members g =
     splice_members n b sub members (set_inputs ret [] (set_inputs n [] g))"

text \<open>
  Modelled from the spec: users of the group outputs read the values that the subgraph
  returned.
\<close>

definition reconnect_users :: "nid \<Rightarrow> nid \<Rightarrow> Graph \<Rightarrow> Graph" where
  "reconnect_users n ret g =
     rewire (zip (outputs (Nodes g n)) (inputs (Nodes g ret)))
       (remdups (concat (map (\<lambda>v. map user (uses (Values g v))) (outputs (Nodes g n))))) g"

text \<open>
  Modelled from the spec: \<^verbatim>\<open>unmergeSubgraph\<close> dissolves a group back
  into its parent block (SizeFilter).
\<close>

definition spec_unmergeSubgraph :: "Graph \<Rightarrow> nid \<Rightarrow> Graph" where
  "spec_unmergeSubgraph g n =
     (case Subgraph (Nodes g n) of
        None \<Rightarrow> g
      | Some sub \<Rightarrow>
          release_members n (owningBlock (Nodes g n)) sub (return_node (Blocks g sub))
            (nodes (Blocks g sub))
            (reconnect_users n (return_node (Blocks g sub))
               (rewire (zip (outputs (Nodes g (param_node (Blocks g sub)))) (inputs (Nodes g n)))
                  (nodes (Blocks g sub) @ [return_node (Blocks g sub)]) g)))"

text \<open>
  Modelled from the spec: \<^verbatim>\<open>mergeNodeIntoSubgraphAndUpdateAliasing\<close>
  merges the producer into the group (SubgraphBuilder, step 4). A producer that is itself a
  group is merged together with the group: it is dissolved where it stands, immediately
  before the group, and its members are merged one by one, the last one first.
\<close>

definition merge_node :: "Graph \<Rightarrow> nid \<Rightarrow> nid \<Rightarrow> Graph" where
  "merge_node g p c =
     (if kind (Nodes g p) = prim_DifferentiableGraph then
        (case Subgraph (Nodes g p) of
           None \<Rightarrow> g
         | Some sub \<Rightarrow>
             foldr (\<lambda>q g'. absorb_node g' q c) (nodes (Blocks g sub)) (spec_unmergeSubgraph g p))
      else absorb_node g p c)"

text \<open>
  Modelled from the spec: the collaborators of the pass, with the differentiability oracle, the
  common subexpression elimination and the two alias repairs left as parameters.
\<close>

definition spec_collab ::
  "(kind \<Rightarrow> bool) \<Rightarrow> (Graph \<Rightarrow> bid \<Rightarrow> Graph) \<Rightarrow> (Graph \<Rightarrow> nid \<Rightarrow> bool \<times> Graph)
     \<Rightarrow> (Graph \<Rightarrow> nid \<Rightarrow> bool \<times> Graph) \<Rightarrow> Collab" where
  "spec_collab differentiable cse repair_outputs repair_inputs =
     \<lparr>isDifferentiable = (\<lambda>g n. differentiable (kind (Nodes g n))),
      moveBeforeTopologicallyValid = spec_moveBefore,
      createSingletonSubgraphAndUpdateAliasing = spec_createSingleton,
      mergeNodeIntoSubgraphAndUpdateAliasing = merge_node,
      unmergeSubgraph = spec_unmergeSubgraph,
      unmergeAliasedOutputs = repair_outputs,
      unmergeOutputsAlisingInputs = repair_inputs,
      EliminateCommonSubexpression = cse\<rparr>"

text \<open>
  Modelled from the spec: the side-effect boundary scenario: the block \<open>[A, B, C,
  D]\<close> with \<open>A\<close> = node 2, \<open>B\<close> = node 3 (side-effecting),
  \<open>C\<close> = node 4, \<open>D\<close> = node 5. All of them read the block input 10,
  except that \<open>D\<close> reads \<open>d_input\<close>: the block input 10 (no dependency
  between \<open>C\<close> and \<open>D\<close>) or the output 12 of \<open>C\<close>.
\<close>

definition scenario :: "vid \<Rightarrow> Graph" where
  "scenario d_input =
     \<lparr>block = 0,
      Nodes = (\<lambda>_. default_node)
        (0 := default_node\<lparr>kind := prim_Param, outputs := [10]\<rparr>,
         1 := default_node\<lparr>kind := prim_Return, inputs := [11, 13]\<rparr>,
         2 := default_node\<lparr>kind := other_op ''aten::relu'', inputs := [10], outputs := [11]\<rparr>,
         3 := default_node\<lparr>kind := other_op ''prim::Print'', inputs := [10], hasSideEffects := True\<rparr>,
         4 := default_node\<lparr>kind := other_op ''aten::tanh'', inputs := [10], outputs := [12]\<rparr>,
         5 := default_node\<lparr>kind := other_op ''aten::sigmoid'', inputs := [d_input], outputs := [13]\<rparr>),
      Values = (\<lambda>_. \<lparr>node = 0, vtype = OtherType 0, uses = []\<rparr>)
        (10 := \<lparr>node = 0, vtype = TensorType None 0,
                uses = [\<lparr>user = 2, offset = 0\<rparr>, \<lparr>user = 3, offset = 0\<rparr>, \<lparr>user = 4, offset = 0\<rparr>]
                       @ (if d_input = 10 then [\<lparr>user = 5, offset = 0\<rparr>] else [])\<rparr>,
         11 := \<lparr>node = 2, vtype = TensorType None 0, uses = [\<lparr>user = 1, offset = 0\<rparr>]\<rparr>,
         12 := \<lparr>node = 4, vtype = TensorType None 0,
                uses = (if d_input = 12 then [\<lparr>user = 5, offset = 0\<rparr>] else [])\<rparr>,
         13 := \<lparr>node = 5, vtype = TensorType None 0, uses = [\<lparr>user = 1, offset = 1\<rparr>]\<rparr>),
      Blocks = (\<lambda>_. \<lparr>param_node = 0, return_node = 0, nodes = []\<rparr>)
        (0 := \<lparr>param_node = 0, return_node = 1, nodes = [2, 3, 4, 5]\<rparr>),
      next_handle = 20\<rparr>"

text \<open>
  Modelled from the spec: the differentiability oracle of the scenario accepts the three
  arithmetic operators.
\<close>

definition differentiable_ops :: "kind \<Rightarrow> bool" where
  "differentiable_ops k = (k \<in> {other_op ''aten::relu'', other_op ''aten::tanh'', other_op ''aten::sigmoid''})"

text \<open>
  Modelled from the spec: collaborators for graphs without aliased outputs and without common
  subexpressions: both repairs and the elimination leave the graph alone.
\<close>

definition quiet_collab :: Collab where
  "quiet_collab = spec_collab differentiable_ops (\<lambda>g b. g) (\<lambda>g n. (False, g)) (\<lambda>g n. (False, g))"

text \<open>What a run returns, projected on the returned list, the outer block and the returned groups.\<close>

definition outcome :: "(Graph \<times> nid list) res \<Rightarrow> (nid list \<times> nid list \<times> (kind \<times> bid option \<times> nid list) list) option" where
  "outcome r = (case r of Some (Inr (g, d)) \<Rightarrow>
      Some (d, nodes (Blocks g (block g)),
            map (\<lambda>n. (kind (Nodes g n), Subgraph (Nodes g n),
                       case Subgraph (Nodes g n) of None \<Rightarrow> [] | Some s \<Rightarrow> nodes (Blocks g s))) d)
    | _ \<Rightarrow> None)"

section \<open>States of the scenario and further example graphs\<close>

text \<open>
  Modelled from the spec: the scenario in which \<open>D\<close> reads the output of \<open>C\<close>, after \<open>D\<close> has been
  wrapped into the singleton group 20.
\<close>

definition wrapped_scenario :: Graph where
  "wrapped_scenario = snd (spec_createSingleton (scenario 12) 5)"

text \<open>
  Modelled from the spec: the same scenario after \<open>C\<close> has been merged into the group 20.
\<close>

definition merged_scenario :: Graph where
  "merged_scenario = merge_node (the (spec_moveBefore wrapped_scenario 4 20)) 4 20"

text \<open>
  A graph with groups already built: the outer block holds the group 2, the node 3 that
  owns the child block 2, and the group 4; the child block holds the group 5. The
  subgraphs of the groups 2 and 5 hold two executed nodes, the subgraph of the group 4
  holds one.
\<close>

definition nested_example :: Graph where
  "nested_example =
     \<lparr>block = 0,
      Nodes = (\<lambda>_. default_node)
        (0 := default_node\<lparr>kind := prim_Param, notExecutedOp := True\<rparr>,
         1 := default_node\<lparr>kind := prim_Return, notExecutedOp := True\<rparr>,
         2 := default_node\<lparr>kind := prim_DifferentiableGraph, Subgraph := Some 1\<rparr>,
         3 := default_node\<lparr>kind := other_op ''prim::If'', blocks := [2]\<rparr>,
         4 := default_node\<lparr>kind := prim_DifferentiableGraph, Subgraph := Some 3\<rparr>,
         5 := default_node\<lparr>kind := prim_DifferentiableGraph, owningBlock := 2, Subgraph := Some 4\<rparr>,
         6 := default_node\<lparr>kind := prim_Param, owningBlock := 1, notExecutedOp := True\<rparr>,
         7 := default_node\<lparr>kind := prim_Return, owningBlock := 1, notExecutedOp := True\<rparr>,
         8 := default_node\<lparr>kind := other_op ''aten::relu'', owningBlock := 1\<rparr>,
         9 := default_node\<lparr>kind := prim_Param, owningBlock := 2, notExecutedOp := True\<rparr>,
         10 := default_node\<lparr>kind := prim_Return, owningBlock := 2, notExecutedOp := True\<rparr>,
         11 := default_node\<lparr>kind := prim_Param, owningBlock := 3, notExecutedOp := True\<rparr>,
         12 := default_node\<lparr>kind := prim_Return, owningBlock := 3, notExecutedOp := True\<rparr>,
         13 := default_node\<lparr>kind := other_op ''aten::tanh'', owningBlock := 3\<rparr>,
         14 := default_node\<lparr>kind := prim_Param, owningBlock := 4, notExecutedOp := True\<rparr>,
         15 := default_node\<lparr>kind := prim_Return, owningBlock := 4, notExecutedOp := True\<rparr>,
         16 := default_node\<lparr>kind := other_op ''aten::sigmoid'', owningBlock := 4\<rparr>,
         17 := default_node\<lparr>kind := other_op ''aten::tanh'', owningBlock := 1\<rparr>,
         18 := default_node\<lparr>kind := other_op ''aten::relu'', owningBlock := 4\<rparr>),
      Values = (\<lambda>_. default_value),
      Blocks = (\<lambda>_. default_block)
        (0 := \<lparr>param_node = 0, return_node = 1, nodes = [2, 3, 4]\<rparr>,
         1 := \<lparr>param_node = 6, return_node = 7, nodes = [8, 17]\<rparr>,
         2 := \<lparr>param_node = 9, return_node = 10, nodes = [5]\<rparr>,
         3 := \<lparr>param_node = 11, return_node = 12, nodes = [13]\<rparr>,
         4 := \<lparr>param_node = 14, return_node = 15, nodes = [16, 18]\<rparr>),
      next_handle = 19\<rparr>"

text \<open>
  Modelled from the spec: the same graph after the group 4 has been dissolved: its member 13
  stands in its place.
\<close>

definition dissolved_example :: Graph where
  "dissolved_example = spec_unmergeSubgraph nested_example 4"


text \<open>
  A block whose first node is both side-effecting and differentiable: node 2 has a side
  effect and is accepted by the differentiability oracle, node 3 reads its output.
\<close>

definition loop_graph :: Graph where
  "loop_graph =
     \<lparr>block = 0,
      Nodes = (\<lambda>_. default_node)
        (0 := default_node\<lparr>kind := prim_Param, outputs := [10]\<rparr>,
         1 := default_node\<lparr>kind := prim_Return, inputs := [12]\<rparr>,
         2 := default_node\<lparr>kind := other_op ''aten::relu'', inputs := [10], outputs := [11],
                hasSideEffects := True\<rparr>,
         3 := default_node\<lparr>kind := other_op ''aten::tanh'', inputs := [11], outputs := [12]\<rparr>),
      Values = (\<lambda>_. default_value)
        (10 := \<lparr>node = 0, vtype = TensorType None 0, uses = [\<lparr>user = 2, offset = 0\<rparr>]\<rparr>,
         11 := \<lparr>node = 2, vtype = TensorType None 0, uses = [\<lparr>user = 3, offset = 0\<rparr>]\<rparr>,
         12 := \<lparr>node = 3, vtype = TensorType None 0, uses = [\<lparr>user = 1, offset = 0\<rparr>]\<rparr>),
      Blocks = (\<lambda>_. default_block)
        (0 := \<lparr>param_node = 0, return_node = 1, nodes = [2, 3]\<rparr>),
      next_handle = 20\<rparr>"

text \<open>
  Modelled from the spec: the same block after node 3 has been wrapped into the group 20.
\<close>

definition wrapped_loop :: Graph where
  "wrapped_loop = snd (spec_createSingleton loop_graph 3)"

text \<open>
  Modelled from the spec: the same block after node 2 has been merged into the group 20.
\<close>

definition merged_loop :: Graph where
  "merged_loop = merge_node (the (spec_moveBefore wrapped_loop 2 20)) 2 20"

section \<open>The flag search, proved\<close>

lemma first_flag_Nil [simp]: "first_flag [] = None" by (simp add: first_flag_def)
lemma first_flag_Cons [simp]: "first_flag (f # fs) = (case f of None \<Rightarrow> first_flag fs | Some r \<Rightarrow> Some r)"
  by (cases f) (simp_all add: first_flag_def)

lemma getProfile_flag: "kind (Nodes g n) = prim_profile \<Longrightarrow> getProfileNodeRequiresGrad g n = Inr (profile_flag g n)"
  by (simp add: getProfileNodeRequiresGrad_def profile_flag_def split: option.splits ty.splits)

lemma profile_flag_not_profile: "kind (Nodes g n) \<noteq> prim_profile \<Longrightarrow> profile_flag g n = None"
  by (simp add: profile_flag_def)

lemma dg_uses_loop_eq: "dg_uses_loop g us = Inr (first_flag (map (\<lambda>u. profile_flag g (user u)) us))"
  by (induction us) (auto simp: getProfile_flag profile_flag_not_profile split: option.splits)

lemma uses_loop_eq:
  "\<forall>u\<in>set us. group_use_ok g u \<Longrightarrow> uses_loop g us = Inr (first_flag (map (use_flag g) us))"
proof (induction us)
  case Nil then show ?case by simp
next
  case (Cons u us)
  show ?case
  proof (cases "kind (Nodes g (user u)) = prim_profile")
    case True
    then have "group_flag g u = None" by (simp add: group_flag_def)
    with True Cons show ?thesis
      by (auto simp: getProfile_flag use_flag_def split: option.splits)
  next
    case False
    note np = this
    show ?thesis
    proof (cases "kind (Nodes g (user u)) = prim_DifferentiableGraph")
      case True
      with Cons.prems obtain dg where dg: "Subgraph (Nodes g (user u)) = Some dg" "offset u < length (graph_inputs g dg)"
        by (auto simp: group_use_ok_def split: option.splits)
      have "through_group g u = Inr (group_flag g u)"
        using True dg by (simp add: through_group_def group_flag_def dg_uses_loop_eq)
      with np True Cons show ?thesis
        by (auto simp: use_flag_def profile_flag_not_profile split: option.splits)
    next
      case False
      with np Cons show ?thesis
        by (auto simp: use_flag_def profile_flag_not_profile group_flag_def split: option.splits)
    qed
  qed
qed

text \<open>
  C3 (as the code has it). For a subgraph output that no profile node produces, that is
  tensor-typed and carries no flag, the loop body scans the uses of the matching outer
  output of the group node once, in use-list order. A use yields a flag if its user is a
  profile node that exposes one, or else if its user is a group node and a profile node
  among the uses of the matching subgraph input exposes one. The first flag a use yields
  is written into the output's type; when no use yields one the graph is returned
  unchanged, and that is not an error.
\<close>

theorem output_step_applies_first_flag:
  assumes "kind (Nodes g (node (Values g (graph_outputs g sub ! i)))) \<noteq> prim_profile"
    and "vtype (Values g (graph_outputs g sub ! i)) = TensorType None info"
    and "i < length (outputs (Nodes g diff_graph))"
    and "\<forall>u\<in>set (uses (Values g (outputs (Nodes g diff_graph) ! i))). group_use_ok g u"
  shows "output_step diff_graph sub g i =
           Inr (case first_flag (map (use_flag g)
                       (uses (Values g (outputs (Nodes g diff_graph) ! i)))) of
                  None \<Rightarrow> g
                | Some r \<Rightarrow> setType g (graph_outputs g sub ! i) (TensorType (Some r) info))"
  using assms by (simp add: output_step_def uses_loop_eq split: option.splits)

theorem output_step_applies_first_flag_witness:
  "output_step 2 1 grad_example 0 = Inr (setType grad_example 20 (TensorType (Some False) 7))"
proof -
  have a: "kind (Nodes grad_example (node (Values grad_example (graph_outputs grad_example 1 ! 0)))) \<noteq> prim_profile"
    by (simp add: grad_example_def graph_outputs_def default_node_def)
  have b: "vtype (Values grad_example (graph_outputs grad_example 1 ! 0)) = TensorType None 7"
    by (simp add: grad_example_def graph_outputs_def default_node_def)
  have c: "0 < length (outputs (Nodes grad_example 2))"
    by (simp add: grad_example_def default_node_def)
  have d: "\<forall>u\<in>set (uses (Values grad_example (outputs (Nodes grad_example 2) ! 0))). group_use_ok grad_example u"
    by (simp add: grad_example_def default_node_def group_use_ok_def graph_inputs_def)
  have e: "first_flag (map (use_flag grad_example) (uses (Values grad_example (outputs (Nodes grad_example 2) ! 0)))) = Some False"
    by (simp add: grad_example_def default_node_def use_flag_def profile_flag_def group_flag_def graph_inputs_def)
  have f: "graph_outputs grad_example 1 ! 0 = 20"
    by (simp add: grad_example_def graph_outputs_def default_node_def)
  have "output_step 2 1 grad_example 0
          = Inr (setType grad_example (graph_outputs grad_example 1 ! 0) (TensorType (Some False) 7))"
    using output_step_applies_first_flag [OF a b c d] by (simp only: e option.case)
  then show ?thesis by (simp only: f)
qed

text \<open>
  C3 as stated fails: in \<open>grad_example\<close> the profile node 3 uses the outer output directly
  and exposes \<open>True\<close>, so the search as the specification words it finds \<open>True\<close>; the code meets the
  use by group 7 first and applies \<open>False\<close>.
\<close>

theorem direct_profile_not_preferred:
  "AddRequiresGradToDifferentiableGraph grad_example 2
     = Inr (setType grad_example 20 (TensorType (Some False) 7))
   \<and> uses (Values grad_example (outputs (Nodes grad_example 2) ! 0))
     = [\<lparr>user = 7, offset = 0\<rparr>, \<lparr>user = 3, offset = 0\<rparr>]
   \<and> kind (Nodes grad_example 3) = prim_profile
   \<and> getProfileNodeRequiresGrad grad_example 3 = Inr (Some True)
   \<and> claimed_flag grad_example (uses (Values grad_example (outputs (Nodes grad_example 2) ! 0)))
     = Some True"
  by (simp add: AddRequiresGradToDifferentiableGraph_def grad_example_def default_node_def
      default_value_def default_block_def graph_outputs_def graph_inputs_def output_step_def
      through_group_def getProfileNodeRequiresGrad_def setType_def claimed_flag_def
      profile_flag_def group_flag_def)

lemma flags_only_refl: "flags_only outs g g"
  by (simp add: flags_only_def)

lemma flags_only_trans:
  assumes "flags_only outs g g1" and "flags_only outs g1 g2"
  shows "flags_only outs g g2"
  unfolding flags_only_def
proof (intro conjI allI impI)
  fix v
  assume ne: "vtype (Values g2 v) \<noteq> vtype (Values g v)"
  show "v \<in> outs" using assms ne unfolding flags_only_def by metis
  show "kind (Nodes g (node (Values g v))) \<noteq> prim_profile"
    using assms ne unfolding flags_only_def by metis
  show "\<exists>info r. vtype (Values g v) = TensorType None info \<and> vtype (Values g2 v) = TensorType (Some r) info"
  proof (cases "vtype (Values g1 v) = vtype (Values g v)")
    case True
    with assms(2) ne show ?thesis unfolding flags_only_def by metis
  next
    case False
    with assms(1) obtain info r where a: "vtype (Values g v) = TensorType None info" "vtype (Values g1 v) = TensorType (Some r) info"
      unfolding flags_only_def by metis
    have "vtype (Values g2 v) = vtype (Values g1 v)"
    proof (rule ccontr)
      assume "vtype (Values g2 v) \<noteq> vtype (Values g1 v)"
      with assms(2) obtain info' where "vtype (Values g1 v) = TensorType None info'"
        unfolding flags_only_def by metis
      with a show False by simp
    qed
    with a show ?thesis by simp
  qed
qed (use assms in \<open>auto simp: flags_only_def\<close>)

lemma output_step_flags_only:
  assumes "output_step dg sub g i = Inr g'" and "i < length (graph_outputs g sub)"
  shows "flags_only (set (graph_outputs g sub)) g g'"
  using assms
  by (auto simp: output_step_def Let_def flags_only_def setType_def
      split: if_splits ty.splits option.splits sum.splits)

lemma output_loop_flags_only:
  assumes "output_loop dg sub is g = Inr g'" and "\<forall>i\<in>set is. i < length (graph_outputs g sub)"
  shows "flags_only (set (graph_outputs g sub)) g g'"
  using assms
proof (induction "is" arbitrary: g)
  case Nil then show ?case by (simp add: flags_only_refl)
next
  case (Cons i "is")
  from Cons.prems(1) obtain g1 where s: "output_step dg sub g i = Inr g1" and r: "output_loop dg sub is g1 = Inr g'"
    by (auto split: sum.splits)
  have f1: "flags_only (set (graph_outputs g sub)) g g1"
    using output_step_flags_only[OF s] Cons.prems(2) by simp
  then have eq: "graph_outputs g1 sub = graph_outputs g sub"
    by (simp add: flags_only_def graph_outputs_def)
  have "flags_only (set (graph_outputs g1 sub)) g1 g'"
    using Cons.IH[OF r] Cons.prems(2) eq by simp
  with f1 eq show ?case by (metis flags_only_trans)
qed

text \<open>
  C9. When the propagator returns, the nodes, blocks and top block of the graph are as
  before, and so are the producer and the uses of every value. A value whose type changed
  is an output of the group's subgraph that no profile node produces, its old type was a
  tensor type without a flag, and its new type is the same tensor type with a flag. So an
  output produced by a profile node, a non-tensor output and an output that already had a
  flag are never modified.
\<close>

theorem AddRequiresGrad_only_sets_flags:
  assumes "AddRequiresGradToDifferentiableGraph g diff_graph = Inr g'"
  shows "block g' = block g \<and> Nodes g' = Nodes g \<and> Blocks g' = Blocks g \<and>
         next_handle g' = next_handle g \<and>
         (\<forall>v. node (Values g' v) = node (Values g v) \<and> uses (Values g' v) = uses (Values g v) \<and>
              (vtype (Values g' v) \<noteq> vtype (Values g v) \<longrightarrow>
                 (\<exists>sub info r. Subgraph (Nodes g diff_graph) = Some sub \<and>
                    v \<in> set (graph_outputs g sub) \<and>
                    kind (Nodes g (node (Values g v))) \<noteq> prim_profile \<and>
                    vtype (Values g v) = TensorType None info \<and>
                    vtype (Values g' v) = TensorType (Some r) info)))"
proof -
  from assms obtain sub where sub: "Subgraph (Nodes g diff_graph) = Some sub"
    and l: "output_loop diff_graph sub [0..<length (graph_outputs g sub)] g = Inr g'"
    by (auto simp: AddRequiresGradToDifferentiableGraph_def split: if_splits option.splits)
  have "flags_only (set (graph_outputs g sub)) g g'"
    using output_loop_flags_only[OF l] by simp
  with sub show ?thesis unfolding flags_only_def by blast
qed


theorem AddRequiresGrad_only_sets_flags_witness:
  "\<exists>g'. AddRequiresGradToDifferentiableGraph grad_example 2 = Inr g' \<and>
        Nodes g' = Nodes grad_example \<and> Blocks g' = Blocks grad_example \<and>
        block g' = block grad_example \<and> next_handle g' = next_handle grad_example \<and>
        vtype (Values g' 20) = TensorType (Some False) 7 \<and>
        vtype (Values g' 10) = TensorType None 7"
proof -
  have e: "AddRequiresGradToDifferentiableGraph grad_example 2
           = Inr (setType grad_example 20 (TensorType (Some False) 7))"
    by (simp add: AddRequiresGradToDifferentiableGraph_def grad_example_def default_node_def
        default_value_def default_block_def graph_outputs_def graph_inputs_def output_step_def
        through_group_def getProfileNodeRequiresGrad_def setType_def)
  have v: "vtype (Values (setType grad_example 20 (TensorType (Some False) 7)) 20)
             = TensorType (Some False) 7"
          "vtype (Values (setType grad_example 20 (TensorType (Some False) 7)) 10)
             = TensorType None 7"
    by (simp_all add: setType_def grad_example_def)
  from AddRequiresGrad_only_sets_flags [OF e] v e show ?thesis by blast
qed

section \<open>Merging one producer, scanning one node\<close>

lemma mset_insert_sorted: "mset (insert_sorted lt x ys) = add_mset x (mset ys)"
  by (induction ys) auto

lemma mset_std_sort: "mset (std_sort lt xs) = mset xs"
  unfolding std_sort_def by (induction xs) (auto simp: mset_insert_sorted)

lemma set_insert_sorted: "set (insert_sorted lt x ys) = insert x (set ys)"
  by (induction ys) auto

lemma sorted_insert_sorted:
  fixes key :: "'a \<Rightarrow> nat"
  assumes "sorted_wrt (\<lambda>x y. key y \<le> key x) ys"
  shows "sorted_wrt (\<lambda>x y. key y \<le> key x) (insert_sorted (\<lambda>x y. key y < key x) x ys)"
  using assms by (induction ys) (auto simp: set_insert_sorted)

lemma sorted_std_sort:
  fixes key :: "'a \<Rightarrow> nat"
  shows "sorted_wrt (\<lambda>x y. key y \<le> key x) (std_sort (\<lambda>x y. key y < key x) xs)"
  unfolding std_sort_def by (induction xs) (auto intro: sorted_insert_sorted)

lemma merge_inputs_find:
  assumes "kind (Nodes g consumer) = prim_DifferentiableGraph"
  shows "merge_inputs C g consumer ins =
           (case find (mergeable C g consumer) ins of
              None \<Rightarrow> Inr None
            | Some v \<Rightarrow>
                Inr (Some (consumer,
                  mergeNodeIntoSubgraphAndUpdateAliasing C
                    (the (moveBeforeTopologicallyValid C g (node (Values g v)) consumer))
                    (node (Values g v)) consumer)))"
  using assms
  by (induction ins) (auto simp: tryMerge_def mergeable_def split: option.splits)

text \<open>
  C6. When \<open>scanNode\<close> visits a merge candidate it wraps it into a singleton group unless
  it is a group already (\<open>consumer'\<close> in the graph \<open>g1\<close>). The inputs it then tries are the
  group's inputs whose producer is owned by the block, sorted so that a producer at a
  later position comes first. The first input in that order whose producer can be merged
  is merged, the rest are not looked at, the result reports a change and the cursor is the
  group node itself. When no input can be merged the cursor moves to the predecessor and
  no change is reported.
\<close>

theorem scanNode_merges_first_mergeable_input:
  assumes "shouldConsiderForMerge C g consumer"
    and "(if kind (Nodes g consumer) \<noteq> prim_DifferentiableGraph
          then createSingletonSubgraphAndUpdateAliasing C g consumer
          else (consumer, g)) = (consumer', g1)"
    and "kind (Nodes g1 consumer') = prim_DifferentiableGraph"
    and "ins = sortReverseTopological g1 b (inputs (Nodes g1 consumer'))"
  shows "mset ins = mset (filter (\<lambda>i. owningBlock (Nodes g1 (node (Values g1 i))) = b)
                            (inputs (Nodes g1 consumer')))
       \<and> sorted_wrt (\<lambda>x y. position g1 b (node (Values g1 y))
                              \<le> position g1 b (node (Values g1 x))) ins
       \<and> scanNode C b g consumer =
           (case find (mergeable C g1 consumer') ins of
              None \<Rightarrow> Inr (prev_node g1 b consumer', False, g1)
            | Some v \<Rightarrow>
                Inr (consumer', True,
                  mergeNodeIntoSubgraphAndUpdateAliasing C
                    (the (moveBeforeTopologicallyValid C g1 (node (Values g1 v)) consumer'))
                    (node (Values g1 v)) consumer'))"
proof (intro conjI)
  show "mset ins = mset (filter (\<lambda>i. owningBlock (Nodes g1 (node (Values g1 i))) = b)
                            (inputs (Nodes g1 consumer')))"
    using assms(4) by (simp add: sortReverseTopological_def mset_std_sort)
  show "sorted_wrt (\<lambda>x y. position g1 b (node (Values g1 y))
                              \<le> position g1 b (node (Values g1 x))) ins"
    using assms(4) sorted_std_sort[of "\<lambda>x. position g1 b (node (Values g1 x))"]
    by (simp add: sortReverseTopological_def isAfter_def)
  show "scanNode C b g consumer =
           (case find (mergeable C g1 consumer') ins of
              None \<Rightarrow> Inr (prev_node g1 b consumer', False, g1)
            | Some v \<Rightarrow>
                Inr (consumer', True,
                  mergeNodeIntoSubgraphAndUpdateAliasing C
                    (the (moveBeforeTopologicallyValid C g1 (node (Values g1 v)) consumer'))
                    (node (Values g1 v)) consumer'))"
    using assms(1) assms(2) assms(4) merge_inputs_find[OF assms(3), of C]
    by (simp add: scanNode_def split: option.splits)
qed


text \<open>
  C5. The candidacy filter accepts a group node, or a node that is neither a constant nor
  one of the seven view operations and that the differentiability classifier accepts.
  \<open>tryMerge\<close> on a group node merges the producer exactly when the producer passes the
  filter and the alias database performs the move; the merge is then applied to the
  reordered graph and the consumer is returned. In every other case \<open>tryMerge\<close> returns
  nothing, raises nothing and leaves the graph as it is, and the loop over the inputs goes
  on with the next input.
\<close>

theorem tryMerge_iff:
  assumes "kind (Nodes g consumer) = prim_DifferentiableGraph"
  shows "(shouldConsiderForMerge C g producer \<longleftrightarrow>
            kind (Nodes g producer) = prim_DifferentiableGraph \<or>
            (kind (Nodes g producer) \<noteq> prim_Constant \<and>
             kind (Nodes g producer) \<notin> {aten_view, aten_view_as, aten_reshape, aten_reshape_as,
                                         aten_transpose, aten_expand, aten_expand_as} \<and>
             isDifferentiable C g producer))
       \<and> ((\<exists>r. tryMerge C g consumer producer = Inr (Some r)) \<longleftrightarrow>
            shouldConsiderForMerge C g producer \<and>
            (\<exists>g'. moveBeforeTopologicallyValid C g producer consumer = Some g'))
       \<and> (\<forall>g'. moveBeforeTopologicallyValid C g producer consumer = Some g' \<longrightarrow>
            shouldConsiderForMerge C g producer \<longrightarrow>
            tryMerge C g consumer producer =
              Inr (Some (consumer, mergeNodeIntoSubgraphAndUpdateAliasing C g' producer consumer)))
       \<and> (\<not> (shouldConsiderForMerge C g producer \<and>
              (\<exists>g'. moveBeforeTopologicallyValid C g producer consumer = Some g')) \<longrightarrow>
            tryMerge C g consumer producer = Inr None \<and>
            (\<forall>input rest. node (Values g input) = producer \<longrightarrow>
               merge_inputs C g consumer (input # rest) = merge_inputs C g consumer rest))"
proof -
  have v: "isViewOp k \<longleftrightarrow> k \<in> {aten_view, aten_view_as, aten_reshape, aten_reshape_as,
                                 aten_transpose, aten_expand, aten_expand_as}" for k
    by (cases k) simp_all
  show ?thesis
    using assms by (auto simp: shouldConsiderForMerge_def tryMerge_def v split: option.splits)
qed


section \<open>Work blocks, characterised\<close>


lemma first_block_Nil [simp]: "\<not> first_block C g m [] e cnt w"
  by (simp add: first_block_def)

lemma later_block_Nil [simp]: "\<not> later_block C g m [] w"
  by (simp add: later_block_def)






lemma tail_block_Nil [simp]: "tail_block C g m [] e cnt en \<longleftrightarrow> en = e \<and> m \<le> cnt"
  by (auto simp: tail_block_def)








section \<open>The size filter and the order of the returned list\<close>

lemma bind_res_Inr:
  "bind_res m f = Some (Inr y) \<Longrightarrow> \<exists>x. m = Some (Inr x) \<and> f x = Some (Inr y)"
  by (auto simp: bind_res_def split: option.splits sum.splits)

lemma cursor_loop_invariant:
  assumes "cursor_loop k stop body it s = Some (Inr s')"
    and "I it s"
    and "\<And>it s it' s'. I it s \<Longrightarrow> it \<noteq> stop \<Longrightarrow> body s it = Some (Inr (it', s')) \<Longrightarrow> I it' s'"
  shows "I stop s'"
  using assms(1,2)
proof (induction k arbitrary: it s)
  case 0 then show ?case by simp
next
  case (Suc k)
  show ?case
  proof (cases "it = stop")
    case True
    with Suc.prems show ?thesis by simp
  next
    case False
    with Suc.prems(1) obtain it' s1 where b: "body s it = Some (Inr (it', s1))"
      and r: "cursor_loop k stop body it' s1 = Some (Inr s')"
      by (auto split: option.splits sum.splits)
    from assms(3)[OF Suc.prems(2) False b] have "I it' s1" .
    from Suc.IH[OF r this] show ?thesis .
  qed
qed


lemma fold_res_invariant:
  assumes "fold_res body xs s = Some (Inr s')"
    and "I s"
    and "\<And>x s s1. I s \<Longrightarrow> body x s = Some (Inr s1) \<Longrightarrow> I s1"
  shows "I s'"
  using assms(1,2)
proof (induction xs arbitrary: s)
  case Nil then show ?case by simp
next
  case (Cons x xs)
  from Cons.prems(1) obtain s1 where b: "body x s = Some (Inr s1)"
    and r: "fold_res body xs s1 = Some (Inr s')"
    by (auto split: option.splits sum.splits)
  from Cons.IH[OF r assms(3)[OF Cons.prems(2) b]] show ?case .
qed

lemma for_nodes_invariant:
  assumes "for_nodes k graph_of b body s = Some (Inr s')"
    and "I s"
    and "\<And>n s s1. I s \<Longrightarrow> body n s = Some (Inr s1) \<Longrightarrow> I s1"
  shows "I s'"
proof -
  have "(\<lambda>it s. I s) (return_node (Blocks (graph_of s) b)) s'"
  proof (rule cursor_loop_invariant[where I = "\<lambda>it s. I s", OF assms(1)[unfolded for_nodes_def]])
    show "I s" by fact
  next
    fix it s it' s1
    assume i: "I s" and b: "bind_res (body it s) (\<lambda>s'. Some (Inr (next_node (graph_of s') b it, s'))) = Some (Inr (it', s1))"
    from bind_res_Inr[OF b] obtain x where "body it s = Some (Inr x)" "x = s1" by auto
    with assms(3)[OF i] show "I s1" by simp
  qed
  then show ?thesis .
qed

(* ---- size filter ---- *)














lemma CreateAutodiffSubgraphs_cleanup:
  assumes "CreateAutodiffSubgraphs k C graph m = Some (Inr (g', d))"
  shows "\<exists>g1 g2 g3. buildupSubgraphs k C m (block graph) graph = Some (Inr g1) \<and>
           unfuseAliasedOutputs k C (block g1) g1 = Some (Inr g2) \<and>
           cleanupSubgraphs k C m (block g2) (g2, []) = Some (Inr (g3, d)) \<and>
           AddRequiresGradOnOutputNodes k (block (EliminateCommonSubexpression C g3 (block g3)))
             (EliminateCommonSubexpression C g3 (block g3)) = Some (Inr g')"
proof -
  from assms obtain r where r: "run k C m graph = Some (Inr r)"
    and a: "(case r of (g, diff_nodes) \<Rightarrow>
               bind_res (AddRequiresGradOnOutputNodes k (block g) g)
                 (\<lambda>g'. Some (Inr (g', diff_nodes)))) = Some (Inr (g', d))"
    unfolding CreateAutodiffSubgraphs_def by (blast dest: bind_res_Inr)
  obtain g4 d4 where r4: "r = (g4, d4)" by (cases r)
  from a r4 have a': "bind_res (AddRequiresGradOnOutputNodes k (block g4) g4)
                 (\<lambda>g'. Some (Inr (g', d4))) = Some (Inr (g', d))" by simp
  from bind_res_Inr[OF a'] have a4: "AddRequiresGradOnOutputNodes k (block g4) g4 = Some (Inr g')"
    and d4: "d4 = d" by auto
  from r[unfolded run_def] obtain g1 where
    b: "buildupSubgraphs k C m (block graph) graph = Some (Inr g1)"
    and r1: "bind_res (unfuseAliasedOutputs k C (block g1) g1) (\<lambda>g2.
     bind_res (cleanupSubgraphs k C m (block g2) (g2, [])) (\<lambda>(g3, diff_nodes).
     Some (Inr (EliminateCommonSubexpression C g3 (block g3), diff_nodes)))) = Some (Inr r)"
    by (blast dest: bind_res_Inr)
  from bind_res_Inr[OF r1] obtain g2 where
    u: "unfuseAliasedOutputs k C (block g1) g1 = Some (Inr g2)"
    and r2: "bind_res (cleanupSubgraphs k C m (block g2) (g2, [])) (\<lambda>(g3, diff_nodes).
     Some (Inr (EliminateCommonSubexpression C g3 (block g3), diff_nodes))) = Some (Inr r)"
    by blast
  from bind_res_Inr[OF r2] obtain g3 d3 where
    c: "cleanupSubgraphs k C m (block g2) (g2, []) = Some (Inr (g3, d3))"
    and r3: "Some (Inr (EliminateCommonSubexpression C g3 (block g3), d3)) = Some (Inr r)"
    by auto
  from r3 r4 d4 have "g4 = EliminateCommonSubexpression C g3 (block g3)" "d3 = d" by auto
  with b u c a4 show ?thesis by blast
qed



lemma cleanup_step_cases:
  assumes "cleanup_step C m b (g, d) cur = Some (Inr (it', g', d'))"
  shows "it' = prev_node g b cur \<and> (d' = d \<or> d' = d @ [cur])"
  using assms
  by (auto simp: cleanup_step_def Let_def split: if_splits option.splits sum.splits)

lemma takeWhile_upto:
  "x \<notin> set ps \<Longrightarrow> takeWhile (\<lambda>m. m \<noteq> x) (ps @ x # rest) = ps"
  by (induction ps) auto

lemma takeWhile_absent:
  "x \<notin> set xs \<Longrightarrow> takeWhile (\<lambda>m. m \<noteq> x) xs = xs"
  by (induction xs) auto

lemma takeWhile_take_distinct:
  assumes "distinct xs" and "j < length xs"
  shows "takeWhile (\<lambda>m. m \<noteq> xs ! j) xs = take j xs"
proof -
  have xs: "xs = take j xs @ xs ! j # drop (Suc j) xs"
    using assms(2) by (simp add: id_take_nth_drop[symmetric])
  have "xs ! j \<notin> set (take j xs)"
    using assms xs by (metis distinct_append disjoint_iff list.set_intros(1) distinct.simps(2) not_distinct_conv_prefix)
  then have "takeWhile (\<lambda>m. m \<noteq> xs ! j) (take j xs @ xs ! j # drop (Suc j) xs) = take j xs"
    by (rule takeWhile_upto)
  with xs show ?thesis by metis
qed

lemma takeWhile_prefix_take:
  assumes "take j ys = take j xs" and "j \<le> length ys" and "distinct xs" and "0 < j" and "j \<le> length xs"
  shows "takeWhile (\<lambda>m. m \<noteq> xs ! (j - 1)) ys = take (j - 1) xs"
proof -
  let ?x = "xs ! (j - 1)"
  have y1: "ys = take j ys @ drop j ys" by simp
  have tj: "take j xs = take (j - 1) xs @ [?x]"
    using assms(4,5) by (metis Suc_pred' take_Suc_conv_app_nth less_le_trans lessI Suc_le_eq)
  have "?x \<notin> set (take (j - 1) xs)"
    using takeWhile_take_distinct[OF assms(3), of "j - 1"] assms(4,5)
    by (metis (mono_tags, lifting) Suc_le_eq Suc_pred' set_takeWhileD)
  then have "takeWhile (\<lambda>m. m \<noteq> ?x) ((take (j - 1) xs @ [?x]) @ drop j ys) = take (j - 1) xs"
    using takeWhile_upto[of ?x "take (j - 1) xs" "drop j ys"] by simp
  with y1 tj assms(1) show ?thesis by metis
qed

lemma cleanup_loop_order:
  assumes c: "cleanup_keeps_order Inv C m b"
    and inv: "Inv g"
    and l: "cursor_loop k (param_node (Blocks g b)) (cleanup_step C m b)
              (prev_node g b (return_node (Blocks g b))) (g, diff) = Some (Inr (g1, d1))"
  shows "Inv g1 \<and> (\<exists>own. d1 = diff @ own \<and> subseq own (rev (nodes (Blocks g b))))"
proof -
  let ?xs = "nodes (Blocks g b)"
  let ?P = "param_node (Blocks g b)"
  let ?R = "return_node (Blocks g b)"
  define I where "I = (\<lambda>it (s :: Graph \<times> nid list).
      Inv (fst s) \<and> param_node (Blocks (fst s) b) = ?P \<and>
      (\<exists>j\<le>length ?xs. take j (nodes (Blocks (fst s) b)) = take j ?xs \<and>
          j \<le> length (nodes (Blocks (fst s) b)) \<and> it = last (?P # take j ?xs) \<and>
          (\<exists>own. snd s = diff @ own \<and> subseq own (rev (drop j ?xs)))))"
  have dist: "distinct (?P # ?xs @ [?R])"
    using c inv unfolding cleanup_keeps_order_def block_seq_def by auto
  have init: "I (prev_node g b ?R) (g, diff)"
  proof -
    have tw: "takeWhile (\<lambda>m. m \<noteq> ?R) ?xs = ?xs"
      using dist by (intro takeWhile_absent) auto
    have "?R \<noteq> ?P" using dist by auto
    then have "prev_node g b ?R = last (?P # takeWhile (\<lambda>m. m \<noteq> ?R) ?xs)"
      by (simp add: prev_node_def Let_def)
    then have "prev_node g b ?R = last (?P # ?xs)"
      by (simp only: tw)
    then show ?thesis unfolding I_def using inv
      by (auto intro!: exI[of _ "length ?xs"])
  qed
  have step: "I it' s'" if i: "I it s" and ne: "it \<noteq> ?P"
      and b: "cleanup_step C m b s it = Some (Inr (it', s'))" for it s it' s'
  proof -
    obtain g2 d2 where s: "s = (g2, d2)" by (cases s)
    obtain g3 d3 where s': "s' = (g3, d3)" by (cases s')
    from i s obtain j own where j: "j \<le> length ?xs" "take j (nodes (Blocks g2 b)) = take j ?xs"
        "j \<le> length (nodes (Blocks g2 b))" "it = last (?P # take j ?xs)"
        "d2 = diff @ own" "subseq own (rev (drop j ?xs))"
      and inv2: "Inv g2" and p2: "param_node (Blocks g2 b) = ?P"
      unfolding I_def by auto
    have jpos: "0 < j" using j(4) ne by (cases j) auto
    have tne: "take j ?xs \<noteq> []" using jpos j(1) by auto
    have "it = last (take j ?xs)" using j(4) tne by simp
    also have "\<dots> = take j ?xs ! (length (take j ?xs) - 1)" using tne by (rule last_conv_nth)
    also have "\<dots> = ?xs ! (j - 1)" using j(1) jpos by simp
    finally have it: "it = ?xs ! (j - 1)" .
    have dx: "distinct ?xs" using dist by simp
    have tw: "takeWhile (\<lambda>m. m \<noteq> it) (nodes (Blocks g2 b)) = take (j - 1) ?xs"
      unfolding it by (rule takeWhile_prefix_take[OF j(2) j(3) dx jpos j(1)])
    have mem: "it \<in> set (nodes (Blocks g2 b))"
    proof -
      have "nodes (Blocks g2 b) ! (j - 1) = take j (nodes (Blocks g2 b)) ! (j - 1)"
        using jpos by simp
      also have "\<dots> = ?xs ! (j - 1)" using j(2) jpos by simp
      finally show ?thesis using it j(3) jpos
        by (metis Suc_le_eq Suc_pred' nth_mem)
    qed
    from b s s' have b': "cleanup_step C m b (g2, d2) it = Some (Inr (it', g3, d3))" by simp
    from cleanup_step_cases[OF b'] have it': "it' = prev_node g2 b it"
      and d3: "d3 = d2 \<or> d3 = d2 @ [it]" by auto
    from c inv2 mem b' have inv3: "Inv g3" and ok: "block_order_kept b it g2 g3"
      unfolding cleanup_keeps_order_def by blast+
    have it'2: "it' = last (?P # take (j - 1) ?xs)"
      using it' ne p2 tw by (simp add: prev_node_def Let_def)
    from ok tw p2 have pf: "prefix (take (j - 1) ?xs) (nodes (Blocks g3 b))"
      and p3: "param_node (Blocks g3 b) = ?P"
      unfolding block_order_kept_def by auto
    from pf obtain zs where zs: "nodes (Blocks g3 b) = take (j - 1) ?xs @ zs"
      by (auto simp: prefix_def)
    have lt: "length (take (j - 1) ?xs) = j - 1" using j(1) by simp
    have len3: "j - 1 \<le> length (nodes (Blocks g3 b))"
      using zs lt by simp
    have tk3: "take (j - 1) (nodes (Blocks g3 b)) = take (j - 1) ?xs"
      using zs lt by simp
    have dr: "drop (j - 1) ?xs = it # drop j ?xs"
      using it jpos j(1) by (metis Cons_nth_drop_Suc Suc_le_eq Suc_pred')
    have sub3: "\<exists>own'. d3 = diff @ own' \<and> subseq own' (rev (drop (j - 1) ?xs))"
    proof (rule disjE[OF d3])
      assume "d3 = d2"
      with j(5,6) dr show ?thesis
        by (auto intro!: exI[of _ own] simp: subseq_append')
    next
      assume "d3 = d2 @ [it]"
      with j(5,6) dr show ?thesis
        by (auto intro!: exI[of _ "own @ [it]"] list_emb_append_mono)
    qed
    show ?thesis unfolding I_def s'
      using inv3 p3 tk3 len3 it'2 sub3 j(1)
      by (auto intro!: exI[of _ "j - 1"])
  qed
  have "I ?P (g1, d1)"
    by (rule cursor_loop_invariant[where I = I, OF l init]) (rule step)
  then obtain j own where j: "j \<le> length ?xs" "?P = last (?P # take j ?xs)"
       "d1 = diff @ own" "subseq own (rev (drop j ?xs))" and i1: "Inv g1"
    unfolding I_def by auto
  have "j = 0"
  proof (rule ccontr)
    assume "j \<noteq> 0"
    then have "last (?P # take j ?xs) \<in> set ?xs"
      using j(1) by (metis last_ConsR last_in_set take_eq_Nil in_set_takeD not_gr_zero le_zero_eq list.size(3) length_take min.absorb2)
    with j(2) dist show False by auto
  qed
  with j i1 show ?thesis by auto
qed

lemma cleanup_step_extends:
  "extends d0 s \<Longrightarrow> cleanup_step C m b s cur = Some (Inr (it', s')) \<Longrightarrow> extends d0 s'"
  by (cases s, cases s') (auto simp: extends_def dest!: cleanup_step_cases)

lemma cleanupSubgraphs_extends:
  "cleanupSubgraphs k C m b s = Some (Inr s') \<Longrightarrow> extends d0 s \<Longrightarrow> extends d0 s'"
proof (induction k arbitrary: b s s')
  case 0 then show ?case by simp
next
  case (Suc k)
  from Suc.prems(1) obtain s1 where
    l: "cursor_loop k (param_node (Blocks (fst s) b)) (cleanup_step C m b)
          (prev_node (fst s) b (return_node (Blocks (fst s) b))) s = Some (Inr s1)"
    and r: "for_nodes k fst b
          (\<lambda>n s. fold_res (cleanupSubgraphs k C m) (blocks (Nodes (fst s) n)) s) s1 = Some (Inr s')"
    by (auto dest: bind_res_Inr)
  have 1: "extends d0 s1"
    by (rule cursor_loop_invariant[where I = "\<lambda>it s. extends d0 s", OF l Suc.prems(2)])
       (rule cleanup_step_extends)
  show ?case
  proof (rule for_nodes_invariant[where I = "extends d0", OF r 1])
    fix n s2 s3
    assume i: "extends d0 s2"
      and f: "fold_res (cleanupSubgraphs k C m) (blocks (Nodes (fst s2) n)) s2 = Some (Inr s3)"
    show "extends d0 s3"
      by (rule fold_res_invariant[where I = "extends d0", OF f i]) (rule Suc.IH)
  qed
qed

lemma cleanup_own_then_children:
  assumes c: "cleanup_keeps_order Inv C m b"
    and inv: "Inv g"
    and run: "cleanupSubgraphs (Suc k) C m b (g, diff) = Some (Inr (g', diff'))"
  shows "\<exists>g1 own children.
           cursor_loop k (param_node (Blocks g b)) (cleanup_step C m b)
             (prev_node g b (return_node (Blocks g b))) (g, diff) = Some (Inr (g1, diff @ own)) \<and>
           subseq own (rev (nodes (Blocks g b))) \<and>
           for_nodes k fst b
             (\<lambda>n s. fold_res (cleanupSubgraphs k C m) (blocks (Nodes (fst s) n)) s)
             (g1, diff @ own) = Some (Inr (g', diff @ own @ children)) \<and>
           diff' = diff @ own @ children"
proof -
  from run obtain s1 where
    l: "cursor_loop k (param_node (Blocks g b)) (cleanup_step C m b)
          (prev_node g b (return_node (Blocks g b))) (g, diff) = Some (Inr s1)"
    and r: "for_nodes k fst b
          (\<lambda>n s. fold_res (cleanupSubgraphs k C m) (blocks (Nodes (fst s) n)) s) s1
            = Some (Inr (g', diff'))"
    by (auto dest: bind_res_Inr)
  obtain g1 d1 where s1: "s1 = (g1, d1)" by (cases s1)
  from cleanup_loop_order[OF c inv l[unfolded s1]] obtain own where
    own: "d1 = diff @ own" "subseq own (rev (nodes (Blocks g b)))" by blast
  have "extends d1 (g', diff')"
  proof (rule for_nodes_invariant[where I = "extends d1", OF r])
    show "extends d1 s1" by (simp add: s1 extends_def)
  next
    fix n s2 s3
    assume i: "extends d1 s2"
      and f: "fold_res (cleanupSubgraphs k C m) (blocks (Nodes (fst s2) n)) s2 = Some (Inr s3)"
    show "extends d1 s3"
      by (rule fold_res_invariant[where I = "extends d1", OF f i]) (rule cleanupSubgraphs_extends)
  qed
  then obtain children where "diff' = d1 @ children" by (auto simp: extends_def)
  with own l r s1 show ?thesis by auto
qed

(* ---- the sweep: what it scans ---- *)


section \<open>Termination of the sweeps of a work block\<close>




























section \<open>Evaluating the pass on the scenario\<close>

lemmas ev = scenario_def default_node_def quiet_collab_def spec_collab_def differentiable_ops_def

lemmas inst = set_inputs_def drop_uses_def add_uses_def new_values_def set_producer_def subst_value_def
  rewire_def fresh_handles_def wrap_node_def spec_createSingleton_def crossable_def move_in_list_def
  spec_moveBefore_def export_outputs_def live_outputs_def absorb_def absorb_plan_def absorb_node_def merge_node_def
  release_members_def reconnect_users_def spec_unmergeSubgraph_def index_of_def
  move_into_def export_live_def splice_members_def

lemma cursor_loop_numeral:
  "cursor_loop (numeral k) stop body it s =
     (if it = stop then Some (Inr s)
      else case body s it of
             None \<Rightarrow> None
           | Some (Inl e) \<Rightarrow> Some (Inl e)
           | Some (Inr (it', s')) \<Rightarrow> cursor_loop (pred_numeral k) stop body it' s')"
  by (simp add: numeral_eq_Suc)

lemma changed_loop_numeral:
  "changed_loop (numeral k) pass s =
     (case pass s of
        None \<Rightarrow> None
      | Some (Inl e) \<Rightarrow> Some (Inl e)
      | Some (Inr (any_changed, s')) \<Rightarrow>
          if any_changed then changed_loop (pred_numeral k) pass s' else Some (Inr s'))"
  by (simp add: numeral_eq_Suc)

lemma buildupSubgraphs_numeral:
  "buildupSubgraphs (numeral k) C minSize b g =
     bind_res (fold_res (process_workblock (pred_numeral k) C b) (buildWorkBlocks C g b minSize) g)
       (for_nodes (pred_numeral k) (\<lambda>g. g) b
          (\<lambda>n g. fold_res (buildupSubgraphs (pred_numeral k) C minSize) (blocks (Nodes g n)) g))"
  by (simp add: numeral_eq_Suc)

lemma unfuseAliasedOutputs_numeral:
  "unfuseAliasedOutputs (numeral k) C b g =
     bind_res (changed_loop (pred_numeral k) (unfuse_sweep (pred_numeral k) C b) g)
       (for_nodes (pred_numeral k) (\<lambda>g. g) b
          (\<lambda>n g. fold_res (unfuseAliasedOutputs (pred_numeral k) C) (blocks (Nodes g n)) g))"
  by (simp add: numeral_eq_Suc)

lemma cleanupSubgraphs_numeral:
  "cleanupSubgraphs (numeral k) C minSize b s =
     bind_res
       (cursor_loop (pred_numeral k) (param_node (Blocks (fst s) b)) (cleanup_step C minSize b)
          (prev_node (fst s) b (return_node (Blocks (fst s) b))) s)
       (for_nodes (pred_numeral k) fst b
          (\<lambda>n s. fold_res (cleanupSubgraphs (pred_numeral k) C minSize) (blocks (Nodes (fst s) n)) s))"
  by (simp add: numeral_eq_Suc)

lemma AddRequiresGradOnOutputNodes_numeral:
  "AddRequiresGradOnOutputNodes (numeral k) b g =
     for_nodes (pred_numeral k) (\<lambda>g. g) b
       (\<lambda>n g.
           bind_res
             (if kind (Nodes g n) = prim_DifferentiableGraph
              then Some (AddRequiresGradToDifferentiableGraph g n) else Some (Inr g))
             (\<lambda>g'. fold_res (AddRequiresGradOnOutputNodes (pred_numeral k)) (blocks (Nodes g' n)) g'))
       g"
  by (simp add: numeral_eq_Suc)

lemmas fuel = cursor_loop_numeral changed_loop_numeral buildupSubgraphs_numeral
  unfuseAliasedOutputs_numeral cleanupSubgraphs_numeral AddRequiresGradOnOutputNodes_numeral

lemmas model = bind_res_def for_nodes_def prev_node_def next_node_def block_seq_def position_def
  isAfter_def shouldConsiderForMerge_def buildWorkBlocks_def std_sort_def sortReverseTopological_def
  tryMerge_def scanNode_def sweep_def process_workblock_def unfuse_sweep_def inlineIfTooSmall_def
  cleanup_step_def run_def CreateAutodiffSubgraphs_def AddRequiresGradToDifferentiableGraph_def
  output_step_def graph_outputs_def graph_inputs_def through_group_def getProfileNodeRequiresGrad_def
  setType_def

lemmas lazy = if_weak_cong option.case_cong_weak sum.case_cong_weak prod.case_cong_weak
  list.case_cong_weak

section \<open>The pass on the scenario\<close>

lemma wrap_D: "createSingletonSubgraphAndUpdateAliasing quiet_collab (scenario 12) 5 = (20, wrapped_scenario)"
  by (simp add: wrapped_scenario_def quiet_collab_def spec_collab_def spec_createSingleton_def scenario_def)

lemma wrapped_kind: "kind (Nodes wrapped_scenario 20) = prim_DifferentiableGraph"
  by (simp add: wrapped_scenario_def ev inst cong: lazy)

lemma candidate_D: "shouldConsiderForMerge quiet_collab (scenario 12) 5"
  by (simp add: ev model)

lemma D_kind: "kind (Nodes (scenario 12) 5) \<noteq> prim_DifferentiableGraph"
  by (simp add: ev)

lemma wrapped_inputs: "sortReverseTopological wrapped_scenario 0 (inputs (Nodes wrapped_scenario 20)) = [12]"
  by (simp add: wrapped_scenario_def ev inst model cong: lazy)

lemma wrapped_producer: "node (Values wrapped_scenario 12) = 4"
  by (simp add: wrapped_scenario_def ev inst cong: lazy)

lemma candidate_C: "shouldConsiderForMerge quiet_collab wrapped_scenario 4"
  by (simp add: wrapped_scenario_def ev inst model cong: lazy)

lemma move_C: "\<exists>g'. moveBeforeTopologicallyValid quiet_collab wrapped_scenario 4 20 = Some g'"
  by (simp add: wrapped_scenario_def ev inst model cong: lazy)

lemma candidate_A: "shouldConsiderForMerge quiet_collab wrapped_scenario 2"
  by (simp add: wrapped_scenario_def ev inst model cong: lazy)

lemma refuse_A: "moveBeforeTopologicallyValid quiet_collab wrapped_scenario 2 20 = None"
  by (simp add: wrapped_scenario_def ev inst model cong: lazy)

theorem tryMerge_iff_witness:
  "(\<exists>r. tryMerge quiet_collab wrapped_scenario 20 4 = Inr (Some r)) \<and>
   tryMerge quiet_collab wrapped_scenario 20 2 = Inr None"
proof -
  have "\<exists>r. tryMerge quiet_collab wrapped_scenario 20 4 = Inr (Some r)"
    using tryMerge_iff [OF wrapped_kind, of quiet_collab 4] candidate_C move_C by blast
  moreover have "tryMerge quiet_collab wrapped_scenario 20 2 = Inr None"
    using tryMerge_iff [OF wrapped_kind, of quiet_collab 2] refuse_A by simp
  ultimately show ?thesis by simp
qed

theorem scanNode_merges_first_mergeable_input_witness:
  "scanNode quiet_collab 0 (scenario 12) 5 = Inr (20, True, merged_scenario)"
proof -
  have a: "(if kind (Nodes (scenario 12) 5) \<noteq> prim_DifferentiableGraph
          then createSingletonSubgraphAndUpdateAliasing quiet_collab (scenario 12) 5
          else (5, scenario 12)) = (20, wrapped_scenario)"
    using D_kind wrap_D by simp
  have m: "mergeable quiet_collab wrapped_scenario 20 12"
    using candidate_C move_C by (simp add: mergeable_def wrapped_producer)
  have mv: "moveBeforeTopologicallyValid quiet_collab wrapped_scenario = spec_moveBefore wrapped_scenario"
    by (simp add: quiet_collab_def spec_collab_def)
  have mg: "mergeNodeIntoSubgraphAndUpdateAliasing quiet_collab = merge_node"
    by (simp add: quiet_collab_def spec_collab_def)
  from scanNode_merges_first_mergeable_input [OF candidate_D a wrapped_kind wrapped_inputs [symmetric]]
  have "scanNode quiet_collab 0 (scenario 12) 5 =
           (case find (mergeable quiet_collab wrapped_scenario 20) [12] of
              None \<Rightarrow> Inr (prev_node wrapped_scenario 0 20, False, wrapped_scenario)
            | Some v \<Rightarrow>
                Inr (20, True,
                  mergeNodeIntoSubgraphAndUpdateAliasing quiet_collab
                    (the (moveBeforeTopologicallyValid quiet_collab wrapped_scenario (node (Values wrapped_scenario v)) 20))
                    (node (Values wrapped_scenario v)) 20))"
    by simp
  then show ?thesis
    by (simp add: m wrapped_producer merged_scenario_def mv mg)
qed






text \<open>
  C8. In the scenario \<open>[A, B, C, D]\<close> with threshold 2 in which \<open>D\<close> reads the output of \<open>C\<close>,
  the pass returns exactly one group, the node 20; its subgraph holds \<open>C\<close> and \<open>D\<close>
  (nodes 4 and 5), and \<open>A\<close> (node 2) and \<open>B\<close> (node 3) stay in the outer block, followed by
  the group.
\<close>

theorem boundary_scenario_one_group:
  "outcome (CreateAutodiffSubgraphs 30 quiet_collab (scenario 12) 2)
     = Some ([20], [2, 3, 20], [(prim_DifferentiableGraph, Some 20, [4, 5])])"
  by (simp add: ev inst model fuel outcome_def cong: lazy)

text \<open>
  C8 as stated fails when \<open>C\<close> and \<open>D\<close> have no dependency between them: a merge only ever
  follows an input of the group to its producer, so \<open>C\<close> and \<open>D\<close> end in two singleton groups,
  both below the threshold, both dissolved. The returned list is empty and the block is as
  it was.
\<close>

theorem independent_nodes_form_no_group:
  "outcome (CreateAutodiffSubgraphs 30 quiet_collab (scenario 10) 2) = Some ([], [2, 3, 4, 5], [])"
  by (simp add: ev inst model fuel outcome_def cong: lazy)










section \<open>The order of the returned list\<close>

lemmas nested = nested_example_def dissolved_example_def default_node_def default_value_def
  default_block_def quiet_collab_def spec_collab_def

lemma nested_cleanup:
  "cleanupSubgraphs (Suc 9) quiet_collab 2 0 (nested_example, [])
     = Some (Inr (dissolved_example, [2, 5]))"
  by (simp add: nested inst model fuel cong: lazy)

lemma nested_seq:
  "block_seq nested_example 0 = [0, 2, 3, 4, 1]" "block_seq dissolved_example 0 = [0, 2, 3, 13, 1]"
  by (simp_all add: nested inst block_seq_def cong: lazy)

lemma nested_step_group_4:
  "cleanup_step quiet_collab 2 0 (nested_example, d) 4 = Some (Inr (3, dissolved_example, d))"
  by (simp add: nested inst model cong: lazy)

lemma nested_step_other:
  "cur \<in> {2, 3} \<Longrightarrow> cleanup_step quiet_collab 2 0 (nested_example, d) cur = Some (Inr (it', g', d'))
     \<Longrightarrow> g' = nested_example"
  by (auto simp: nested inst model cong: lazy)

lemma dissolved_step:
  "cur \<in> {2, 3, 13} \<Longrightarrow> cleanup_step quiet_collab 2 0 (dissolved_example, d) cur = Some (Inr (it', g', d'))
     \<Longrightarrow> g' = dissolved_example"
proof -
  assume m: "cur \<in> {2, 3, 13}"
    and s: "cleanup_step quiet_collab 2 0 (dissolved_example, d) cur = Some (Inr (it', g', d'))"
  have k: "kind (Nodes dissolved_example 3) \<noteq> prim_DifferentiableGraph"
    "kind (Nodes dissolved_example 13) \<noteq> prim_DifferentiableGraph"
    "kind (Nodes dissolved_example 2) = prim_DifferentiableGraph"
    "Subgraph (Nodes dissolved_example 2) = Some 1"
    "reaches_min dissolved_example 2 (nodes (Blocks dissolved_example 1)) 0"
    by (simp_all add: nested inst cong: lazy)
  have e: "EliminateCommonSubexpression quiet_collab = (\<lambda>g b. g)"
    by (simp add: quiet_collab_def spec_collab_def)
  from m consider "cur = 2" | "cur = 3" | "cur = 13" by auto
  then show ?thesis
  proof cases
    case 1 with s show ?thesis by (simp add: cleanup_step_def inlineIfTooSmall_def e k del: One_nat_def)
  next
    case 2 with s show ?thesis by (simp add: cleanup_step_def k)
  next
    case 3 with s show ?thesis by (simp add: cleanup_step_def k)
  qed
qed

lemma nested_keeps_order:
  "cleanup_keeps_order (\<lambda>g. g = nested_example \<or> g = dissolved_example) quiet_collab 2 0"
proof -
  have n: "nodes (Blocks nested_example 0) = [2, 3, 4]" "nodes (Blocks dissolved_example 0) = [2, 3, 13]"
    "param_node (Blocks dissolved_example 0) = param_node (Blocks nested_example 0)"
    by (simp_all add: nested inst cong: lazy)
  have c: "(g' = nested_example \<or> g' = dissolved_example) \<and> block_order_kept 0 cur g g'"
    if "g = nested_example \<or> g = dissolved_example" and "cur \<in> set (nodes (Blocks g 0))"
      and "cleanup_step quiet_collab 2 0 (g, d) cur = Some (Inr (it', g', d'))"
    for g d cur it' g' d'
    using that(1)
  proof
    assume g: "g = nested_example"
    with that(2) have m: "cur \<in> {2, 3, 4}" by (simp add: n)
    show ?thesis
    proof (cases "cur = 4")
      case True
      with that(3) g have "g' = dissolved_example" by (simp add: nested_step_group_4)
      with g True show ?thesis by (simp add: block_order_kept_def n)
    next
      case False
      with m have "cur \<in> {2, 3}" by simp
      from nested_step_other [OF this] that(3) g have "g' = nested_example" by simp
      with g show ?thesis by (simp add: block_order_kept_def takeWhile_is_prefix)
    qed
  next
    assume g: "g = dissolved_example"
    with that(2) have m: "cur \<in> {2, 3, 13}" by (simp add: n)
    from dissolved_step [OF m] that(3) g have "g' = dissolved_example" by simp
    with g show ?thesis by (simp add: block_order_kept_def takeWhile_is_prefix)
  qed
  show ?thesis
    unfolding cleanup_keeps_order_def
  proof (intro conjI allI impI)
    fix g assume "g = nested_example \<or> g = dissolved_example"
    then show "distinct (block_seq g 0)" by (auto simp: nested_seq)
  next
    fix g d cur it' g' d'
    assume "(g = nested_example \<or> g = dissolved_example) \<and> cur \<in> set (nodes (Blocks g 0)) \<and>
         cleanup_step quiet_collab 2 0 (g, d) cur = Some (Inr (it', g', d'))"
    with c [of g cur d it' g' d'] show "g' = nested_example \<or> g' = dissolved_example" by blast
  next
    fix g d cur it' g' d'
    assume "(g = nested_example \<or> g = dissolved_example) \<and> cur \<in> set (nodes (Blocks g 0)) \<and>
         cleanup_step quiet_collab 2 0 (g, d) cur = Some (Inr (it', g', d'))"
    with c [of g cur d it' g' d'] show "block_order_kept 0 cur g g'" by blast
  qed
qed

text \<open>
  C10. The list recorded by \<open>cleanupSubgraphs\<close> on a block extends the list it was given
  first by groups of the block itself, in the reverse of their order in the block (\<open>own\<close>
  is a subsequence of the reversed node list), and only then, during the recursion into the
  blocks owned by the nodes of the block, by the groups \<open>children\<close> found there. The list
  returned by \<open>CreateAutodiffSubgraphs\<close> is the list that \<open>cleanupSubgraphs\<close> records on
  the top block, starting from the empty list, in the graph that the build-up and the alias
  unfuser left. The collaborators are assumed to leave the nodes before the current node
  of the cleanup at the head of the node list (\<open>cleanup_keeps_order\<close>); a dissolved group may
  be replaced by its members.
\<close>

theorem returned_list_order:
  assumes "cleanup_keeps_order Inv C m b" and "Inv g"
    and "cleanupSubgraphs (Suc k) C m b (g, diff) = Some (Inr (g', diff'))"
  shows "(\<exists>g1 own children.
           cursor_loop k (param_node (Blocks g b)) (cleanup_step C m b)
             (prev_node g b (return_node (Blocks g b))) (g, diff) = Some (Inr (g1, diff @ own)) \<and>
           subseq own (rev (nodes (Blocks g b))) \<and>
           for_nodes k fst b
             (\<lambda>n s. fold_res (cleanupSubgraphs k C m) (blocks (Nodes (fst s) n)) s)
             (g1, diff @ own) = Some (Inr (g', diff @ own @ children)) \<and>
           diff' = diff @ own @ children) \<and>
         (\<forall>j graph threshold g_out d.
            CreateAutodiffSubgraphs j C graph threshold = Some (Inr (g_out, d)) \<longrightarrow>
            (\<exists>g1 g2 g3.
               buildupSubgraphs j C threshold (block graph) graph = Some (Inr g1) \<and>
               unfuseAliasedOutputs j C (block g1) g1 = Some (Inr g2) \<and>
               cleanupSubgraphs j C threshold (block g2) (g2, []) = Some (Inr (g3, d))))"
proof (intro conjI allI impI)
  show "\<exists>g1 own children.
           cursor_loop k (param_node (Blocks g b)) (cleanup_step C m b)
             (prev_node g b (return_node (Blocks g b))) (g, diff) = Some (Inr (g1, diff @ own)) \<and>
           subseq own (rev (nodes (Blocks g b))) \<and>
           for_nodes k fst b
             (\<lambda>n s. fold_res (cleanupSubgraphs k C m) (blocks (Nodes (fst s) n)) s)
             (g1, diff @ own) = Some (Inr (g', diff @ own @ children)) \<and>
           diff' = diff @ own @ children"
    by (rule cleanup_own_then_children [OF assms])
next
  fix j graph threshold g_out d
  assume "CreateAutodiffSubgraphs j C graph threshold = Some (Inr (g_out, d))"
  from CreateAutodiffSubgraphs_cleanup [OF this]
  show "\<exists>g1 g2 g3.
               buildupSubgraphs j C threshold (block graph) graph = Some (Inr g1) \<and>
               unfuseAliasedOutputs j C (block g1) g1 = Some (Inr g2) \<and>
               cleanupSubgraphs j C threshold (block g2) (g2, []) = Some (Inr (g3, d))"
    by blast
qed

theorem returned_list_order_witness:
  "cleanupSubgraphs (Suc 9) quiet_collab 2 0 (nested_example, [])
     = Some (Inr (dissolved_example, [2, 5])) \<and>
   nodes (Blocks nested_example 0) = [2, 3, 4] \<and>
   nodes (Blocks dissolved_example 0) = [2, 3, 13] \<and>
   (\<exists>g1 own children.
      cursor_loop 9 (param_node (Blocks nested_example 0)) (cleanup_step quiet_collab 2 0)
        (prev_node nested_example 0 (return_node (Blocks nested_example 0))) (nested_example, [])
        = Some (Inr (g1, own)) \<and>
      subseq own (rev (nodes (Blocks nested_example 0))) \<and>
      [2, 5] = own @ children)"
proof -
  have n: "nodes (Blocks nested_example 0) = [2, 3, 4]" "nodes (Blocks dissolved_example 0) = [2, 3, 13]"
    by (simp_all add: nested inst cong: lazy)
  have i: "nested_example = nested_example \<or> nested_example = dissolved_example" by simp
  from returned_list_order [OF nested_keeps_order i nested_cleanup]
  have "\<exists>g1 own children.
           cursor_loop 9 (param_node (Blocks nested_example 0)) (cleanup_step quiet_collab 2 0)
             (prev_node nested_example 0 (return_node (Blocks nested_example 0))) (nested_example, [])
               = Some (Inr (g1, [] @ own)) \<and>
           subseq own (rev (nodes (Blocks nested_example 0))) \<and>
           for_nodes 9 fst 0
             (\<lambda>n s. fold_res (cleanupSubgraphs 9 quiet_collab 2) (blocks (Nodes (fst s) n)) s)
             (g1, [] @ own) = Some (Inr (dissolved_example, [] @ own @ children)) \<and>
           [2, 5] = [] @ own @ children"
    by (rule conjunct1)
  then obtain g1 own children where
    "cursor_loop 9 (param_node (Blocks nested_example 0)) (cleanup_step quiet_collab 2 0)
             (prev_node nested_example 0 (return_node (Blocks nested_example 0))) (nested_example, [])
               = Some (Inr (g1, own))"
    "subseq own (rev (nodes (Blocks nested_example 0)))"
    "[2, 5] = own @ children"
    by auto
  with nested_cleanup n show ?thesis by blast
qed

section \<open>Termination of the sweeps, from the boundaries\<close>




























lemmas loop = loop_graph_def merged_loop_def wrapped_loop_def default_node_def default_value_def default_block_def
  quiet_collab_def spec_collab_def differentiable_ops_def











end
